theory Spec2Isabelle
  imports Main
begin

section \<open>The value interface\<close>

text \<open>
  \<open>FlatMap<Key, ValueType, Value, KeyCompare, KeyEqual, ...>\<close> is parameterised by a
  \<open>Value\<close> interface with the static members \<open>default_value\<close>, \<open>is_default_value\<close>,
  \<open>equals\<close> and \<open>leq\<close>; the value type itself offers \<open>is_top\<close> and \<open>is_bottom\<close>
  (used by \<open>leq\<close> on \<open>Value::default_value()\<close>). The interface is declared outside
  \<open>FlatMap.h\<close>, so it is a parameter of every operation here.
  Keys are ordered by \<open>KeyCompare = std::less<Key>\<close> and compared by
  \<open>KeyEqual = std::equal_to<Key>\<close>, the defaults of the template: a linear order.
\<close>

record 'v Value =
  default_value :: 'v
  is_default_value :: "'v \<Rightarrow> bool"
  Value_equals :: "'v \<Rightarrow> 'v \<Rightarrow> bool"
  Value_leq :: "'v \<Rightarrow> 'v \<Rightarrow> bool"
  is_top :: "'v \<Rightarrow> bool"
  is_bottom :: "'v \<Rightarrow> bool"

text \<open>
  Modelled from the spec: \<open>RUNTIME_CHECK(false, undefined_operation())\<close> is a macro of
  the repository declared outside \<open>FlatMap.h\<close>; it raises the undefined-operation error.
\<close>

datatype error = undefined_operation

section \<open>The sorted vector\<close>

text \<open>
  \<open>m_map\<close> is a \<open>boost::container::flat_map\<close>: a vector of pairs kept sorted by key,
  keys unique. It is a list of pairs here; an iterator is its offset from \<open>begin()\<close>,
  and \<open>end()\<close> is the length. The operations of the Boost container and of
  \<open><algorithm>\<close> that \<open>FlatMap\<close> calls follow, as their documentation states them on
  a sorted sequence.
\<close>

type_synonym ('k, 'v) flat_map = "('k \<times> 'v) list"

definition ComparePairWithKey :: "'k::linorder \<times> 'v \<Rightarrow> 'k \<Rightarrow> bool" where
  "ComparePairWithKey pair key = (fst pair < key)"

definition PairEqual :: "'v Value \<Rightarrow> 'k \<times> 'v \<Rightarrow> 'k \<times> 'v \<Rightarrow> bool" where
  "PairEqual V left right = (fst left = fst right \<and> Value_equals V (snd left) (snd right))"

text \<open>\<open>std::lower_bound(first, last, key, ComparePairWithKey())\<close>: the first position of
  \<open>[first, last)\<close> whose pair is not less than \<open>key\<close>, or \<open>last\<close>.\<close>

definition lower_bound :: "('k::linorder, 'v) flat_map \<Rightarrow> nat \<Rightarrow> nat \<Rightarrow> 'k \<Rightarrow> nat" where
  "lower_bound c first lst key =
     first + length (takeWhile (\<lambda>p. ComparePairWithKey p key) (take (lst - first) (drop first c)))"

text \<open>\<open>flat_map::find(key)\<close>: the mapped value of the pair with that key, if any.\<close>

definition find_key :: "('k, 'v) flat_map \<Rightarrow> 'k \<Rightarrow> 'v option" where
  "find_key c key = map_of c key"

text \<open>\<open>flat_map::erase(key)\<close>: erases the pair with that key, if any.\<close>

definition erase_key :: "('k, 'v) flat_map \<Rightarrow> 'k \<Rightarrow> ('k, 'v) flat_map" where
  "erase_key c key = filter (\<lambda>p. fst p \<noteq> key) c"

text \<open>\<open>flat_map::erase(it)\<close> and \<open>flat_map::erase(first, last)\<close>.\<close>

definition erase_at :: "('k, 'v) flat_map \<Rightarrow> nat \<Rightarrow> ('k, 'v) flat_map" where
  "erase_at c it = take it c @ drop (Suc it) c"

definition erase_range :: "('k, 'v) flat_map \<Rightarrow> nat \<Rightarrow> nat \<Rightarrow> ('k, 'v) flat_map" where
  "erase_range c first lst = take first c @ drop lst c"

text \<open>\<open>flat_map::try_emplace(key, value)\<close>: inserts the pair at its sorted position when
  no pair has the key, and leaves the container as it is otherwise; returns the
  container, the position of the pair with the key, and whether it was inserted.
  \<open>flat_map::insert(hint, pair)\<close> inserts under the same condition, wherever the hint
  points, and returns the position.\<close>

definition try_emplace ::
  "('k::linorder, 'v) flat_map \<Rightarrow> 'k \<Rightarrow> 'v \<Rightarrow> ('k, 'v) flat_map \<times> nat \<times> bool" where
  "try_emplace c key v =
     (let pos = lower_bound c 0 (length c) key in
      if pos < length c \<and> fst (c ! pos) = key then (c, pos, False)
      else (take pos c @ (key, v) # drop pos c, pos, True))"

definition insert_hint ::
  "('k::linorder, 'v) flat_map \<Rightarrow> nat \<Rightarrow> 'k \<times> 'v \<Rightarrow> ('k, 'v) flat_map \<times> nat" where
  "insert_hint c hint p =
     (case try_emplace c (fst p) (snd p) of (c', pos, inserted) \<Rightarrow> (c', pos))"

text \<open>\<open>flat_map::insert_or_assign(key, value)\<close>: inserts the pair when no pair has the
  key, and assigns the value to the pair that has it otherwise.\<close>

definition boost_insert_or_assign ::
  "('k::linorder, 'v) flat_map \<Rightarrow> 'k \<Rightarrow> 'v \<Rightarrow> ('k, 'v) flat_map" where
  "boost_insert_or_assign c key v =
     (case try_emplace c key v of
        (c', pos, inserted) \<Rightarrow> if inserted then c' else c'[pos := (key, v)])"

text \<open>\<open>flat_map::insert(ordered_unique_range, first, last)\<close>: inserts each pair of the
  range whose key no pair of the container has.\<close>

definition insert_ordered_unique_range ::
  "('k::linorder, 'v) flat_map \<Rightarrow> ('k \<times> 'v) list \<Rightarrow> ('k, 'v) flat_map" where
  "insert_ordered_unique_range c rng = fold (\<lambda>p c'. fst (insert_hint c' (length c') p)) rng c"

section \<open>FlatMap\<close>

text \<open>Invariant I1 (sparsity): no stored value is a default value.
  Invariant I2 (order): the stored keys are strictly ascending.\<close>

definition I1 :: "'v Value \<Rightarrow> ('k, 'v) flat_map \<Rightarrow> bool" where
  "I1 V m = list_all (\<lambda>p. \<not> is_default_value V (snd p)) m"

definition I2 :: "('k::linorder, 'v) flat_map \<Rightarrow> bool" where
  "I2 m = sorted_wrt (<) (map fst m)"

definition filter_with :: "('k \<Rightarrow> 'v \<Rightarrow> bool) \<Rightarrow> ('k, 'v) flat_map \<Rightarrow> ('k, 'v) flat_map" where
  "filter_with predicate m = filter (\<lambda>p. \<not> \<not> predicate (fst p) (snd p)) m"

definition erase_default_values :: "'v Value \<Rightarrow> ('k, 'v) flat_map \<Rightarrow> ('k, 'v) flat_map" where
  "erase_default_values V m = filter_with (\<lambda>key v. \<not> is_default_value V v) m"

definition empty_map :: "('k, 'v) flat_map" where
  "empty_map = []"

definition at :: "'v Value \<Rightarrow> ('k, 'v) flat_map \<Rightarrow> 'k \<Rightarrow> 'v" where
  "at V m key = (case find_key m key of None \<Rightarrow> default_value V | Some v \<Rightarrow> v)"

definition remove :: "'k \<Rightarrow> ('k, 'v) flat_map \<Rightarrow> ('k, 'v) flat_map" where
  "remove key m = erase_key m key"

definition insert_or_assign ::
  "'v Value \<Rightarrow> 'k::linorder \<Rightarrow> 'v \<Rightarrow> ('k, 'v) flat_map \<Rightarrow> ('k, 'v) flat_map" where
  "insert_or_assign V key v m =
     (if is_default_value V v then remove key m else boost_insert_or_assign m key v)"

text \<open>The constructor from an initializer list.\<close>

definition FlatMap :: "'v Value \<Rightarrow> ('k::linorder \<times> 'v) list \<Rightarrow> ('k, 'v) flat_map" where
  "FlatMap V l = fold (\<lambda>p m. insert_or_assign V (fst p) (snd p) m) l empty_map"

text \<open>\<open>operation\<close> mutates the value it points to: it is a function from the old value
  to the new one.\<close>

definition update ::
  "'v Value \<Rightarrow> ('v \<Rightarrow> 'v) \<Rightarrow> 'k::linorder \<Rightarrow> ('k, 'v) flat_map \<Rightarrow> ('k, 'v) flat_map" where
  "update V operation key m =
     (case try_emplace m key (default_value V) of
        (m', it, inserted) \<Rightarrow>
          (let m'' = m'[it := (fst (m' ! it), operation (snd (m' ! it)))] in
           if is_default_value V (snd (m'' ! it)) then erase_at m'' it else m''))"

subsection \<open>leq\<close>

text \<open>The \<open>while\<close> loops of \<open>leq_when_default_is_top\<close> and
  \<open>leq_when_default_is_bottom\<close>, with the iterators \<open>it\<close> and \<open>other_it\<close> as offsets:
  \<open>std::distance(it, end)\<close> is \<open>length m - it\<close>, and every \<open>return false\<close> inside the loop
  is a branch that yields \<open>False\<close>. The recursion ends because the iterator the loop
  tests moves forward in every round.\<close>

function leq_top_loop ::
  "'v Value \<Rightarrow> ('k::linorder, 'v) flat_map \<Rightarrow> nat \<Rightarrow> ('k, 'v) flat_map \<Rightarrow> nat \<Rightarrow> bool" where
  "leq_top_loop V m it other other_it =
     (if other_it < length other then
        if length m - it < length other - other_it then False
        else
          (let it' = lower_bound m it (length m) (fst (other ! other_it)) in
           if it' = length m \<or> \<not> (fst (m ! it') = fst (other ! other_it)) then False
           else if \<not> Value_leq V (snd (m ! it')) (snd (other ! other_it)) then False
           else leq_top_loop V m (Suc it') other (Suc other_it))
      else True)"
  by pat_completeness auto
termination
  by (relation "measure (\<lambda>(V, m, it, other, other_it). length other - other_it)") auto

definition leq_when_default_is_top ::
  "'v Value \<Rightarrow> ('k::linorder, 'v) flat_map \<Rightarrow> ('k, 'v) flat_map \<Rightarrow> bool" where
  "leq_when_default_is_top V m other =
     (if length m < length other then False else leq_top_loop V m 0 other 0)"

function leq_bottom_loop ::
  "'v Value \<Rightarrow> ('k::linorder, 'v) flat_map \<Rightarrow> nat \<Rightarrow> ('k, 'v) flat_map \<Rightarrow> nat \<Rightarrow> bool" where
  "leq_bottom_loop V m it other other_it =
     (if it < length m then
        if length m - it > length other - other_it then False
        else
          (let other_it' = lower_bound other other_it (length other) (fst (m ! it)) in
           if other_it' = length other \<or> \<not> (fst (m ! it) = fst (other ! other_it')) then False
           else if \<not> Value_leq V (snd (m ! it)) (snd (other ! other_it')) then False
           else leq_bottom_loop V m (Suc it) other (Suc other_it'))
      else True)"
  by pat_completeness auto
termination
  by (relation "measure (\<lambda>(V, m, it, other, other_it). length m - it)") auto

definition leq_when_default_is_bottom ::
  "'v Value \<Rightarrow> ('k::linorder, 'v) flat_map \<Rightarrow> ('k, 'v) flat_map \<Rightarrow> bool" where
  "leq_when_default_is_bottom V m other =
     (if length m > length other then False else leq_bottom_loop V m 0 other 0)"

definition leq ::
  "'v Value \<Rightarrow> ('k::linorder, 'v) flat_map \<Rightarrow> ('k, 'v) flat_map \<Rightarrow> error + bool" where
  "leq V m other =
     (if is_top V (default_value V) then Inr (leq_when_default_is_top V m other)
      else if is_bottom V (default_value V) then Inr (leq_when_default_is_bottom V m other)
      else Inl undefined_operation)"

subsection \<open>equals\<close>

text \<open>\<open>std::equal\<close> over two ranges: the ranges have the same length and the predicate
  holds at every position.\<close>

definition equals :: "'v Value \<Rightarrow> ('k, 'v) flat_map \<Rightarrow> ('k, 'v) flat_map \<Rightarrow> bool" where
  "equals V m other = list_all2 (PairEqual V) m other"

subsection \<open>map, union and intersection\<close>

text \<open>\<open>f\<close> and \<open>combine\<close> mutate the value their first argument points to: they are
  functions that return the new value. \<open>union_loop\<close> and \<open>intersection_loop\<close> are the
  \<open>while\<close> loops of \<open>union_with\<close> and \<open>intersection_with\<close>; a \<open>break\<close> ends the recursion,
  and \<open>erase_default_values\<close> runs on what the loop leaves.\<close>

definition map_values :: "'v Value \<Rightarrow> ('v \<Rightarrow> 'v) \<Rightarrow> ('k, 'v) flat_map \<Rightarrow> ('k, 'v) flat_map" where
  "map_values V f m =
     (let m' = map (\<lambda>p. (fst p, f (snd p))) m;
          has_default_value = list_ex (\<lambda>p. is_default_value V (snd p)) m'
      in if has_default_value then erase_default_values V m' else m')"

function union_loop ::
  "('v \<Rightarrow> 'v \<Rightarrow> 'v) \<Rightarrow> ('k::linorder, 'v) flat_map \<Rightarrow> nat \<Rightarrow> ('k, 'v) flat_map \<Rightarrow> nat
   \<Rightarrow> ('k, 'v) flat_map" where
  "union_loop combine m it other other_it =
     (if other_it < length other then
        (let it' = lower_bound m it (length m) (fst (other ! other_it)) in
         if it' = length m then insert_ordered_unique_range m (drop other_it other)
         else if fst (m ! it') = fst (other ! other_it) then
           union_loop combine
             (m[it' := (fst (m ! it'), combine (snd (m ! it')) (snd (other ! other_it)))])
             (Suc it') other (Suc other_it)
         else
           (case insert_hint m it' (other ! other_it) of
              (m', it'') \<Rightarrow> union_loop combine m' (Suc it'') other (Suc other_it)))
      else m)"
  by pat_completeness auto
termination
  by (relation "measure (\<lambda>(combine, m, it, other, other_it). length other - other_it)") auto

definition union_with ::
  "'v Value \<Rightarrow> ('v \<Rightarrow> 'v \<Rightarrow> 'v) \<Rightarrow> ('k::linorder, 'v) flat_map \<Rightarrow> ('k, 'v) flat_map
   \<Rightarrow> ('k, 'v) flat_map" where
  "union_with V combine m other = erase_default_values V (union_loop combine m 0 other 0)"

function intersection_loop ::
  "'v Value \<Rightarrow> ('v \<Rightarrow> 'v \<Rightarrow> 'v) \<Rightarrow> ('k::linorder, 'v) flat_map \<Rightarrow> nat \<Rightarrow> ('k, 'v) flat_map
   \<Rightarrow> nat \<Rightarrow> ('k, 'v) flat_map" where
  "intersection_loop V combine m it other other_it =
     (if it < length m then
        (let other_it' = lower_bound other other_it (length other) (fst (m ! it)) in
         if other_it' = length other then erase_range m it (length m)
         else if fst (m ! it) = fst (other ! other_it') then
           intersection_loop V combine
             (m[it := (fst (m ! it), combine (snd (m ! it)) (snd (other ! other_it')))])
             (Suc it) other (Suc other_it')
         else
           intersection_loop V combine (m[it := (fst (m ! it), default_value V)])
             (Suc it) other other_it')
      else m)"
  by pat_completeness auto
termination
  by (relation "measure (\<lambda>(V, combine, m, it, other, other_it). length m - it)") auto

definition intersection_with ::
  "'v Value \<Rightarrow> ('v \<Rightarrow> 'v \<Rightarrow> 'v) \<Rightarrow> ('k::linorder, 'v) flat_map \<Rightarrow> ('k, 'v) flat_map
   \<Rightarrow> ('k, 'v) flat_map" where
  "intersection_with V combine m other =
     erase_default_values V (intersection_loop V combine m 0 other 0)"

definition clear :: "('k, 'v) flat_map \<Rightarrow> ('k, 'v) flat_map" where
  "clear m = []"

subsection \<open>Sequences of operations\<close>

text \<open>The mutating members of the public interface, as data, so that a sequence of calls
  on one map is a list. The map a \<open>union_with\<close> or \<open>intersection_with\<close> call is
  given is another \<open>FlatMap\<close>.\<close>

datatype ('k, 'v) mutation =
    Insert_or_assign 'k 'v
  | Remove 'k
  | Update "'v \<Rightarrow> 'v" 'k
  | Map_values "'v \<Rightarrow> 'v"
  | Filter_with "'k \<Rightarrow> 'v \<Rightarrow> bool"
  | Union_with "'v \<Rightarrow> 'v \<Rightarrow> 'v" "('k, 'v) flat_map"
  | Intersection_with "'v \<Rightarrow> 'v \<Rightarrow> 'v" "('k, 'v) flat_map"
  | Clear

fun apply_mutation ::
  "'v Value \<Rightarrow> ('k::linorder, 'v) mutation \<Rightarrow> ('k, 'v) flat_map \<Rightarrow> ('k, 'v) flat_map" where
  "apply_mutation V (Insert_or_assign key v) m = insert_or_assign V key v m"
| "apply_mutation V (Remove key) m = remove key m"
| "apply_mutation V (Update operation key) m = update V operation key m"
| "apply_mutation V (Map_values f) m = map_values V f m"
| "apply_mutation V (Filter_with predicate) m = filter_with predicate m"
| "apply_mutation V (Union_with combine other) m = union_with V combine m other"
| "apply_mutation V (Intersection_with combine other) m = intersection_with V combine m other"
| "apply_mutation V Clear m = clear m"

definition apply_mutations ::
  "'v Value \<Rightarrow> ('k::linorder, 'v) mutation list \<Rightarrow> ('k, 'v) flat_map \<Rightarrow> ('k, 'v) flat_map" where
  "apply_mutations V mutations m = fold (apply_mutation V) mutations m"

subsection \<open>A value domain for the examples\<close>

text \<open>The examples of the specification bind keys to integers, once with Top and once
  with Bottom as the default, and combine with the integer maximum. The integers with a
  least element \<open>Bottom\<close> and a greatest element \<open>Top\<close> serve both.\<close>

datatype int_domain = Bottom | Num int | Top

fun int_domain_leq :: "int_domain \<Rightarrow> int_domain \<Rightarrow> bool" where
  "int_domain_leq Bottom y = True"
| "int_domain_leq x Top = True"
| "int_domain_leq (Num a) (Num b) = (a \<le> b)"
| "int_domain_leq x y = False"

fun int_domain_max :: "int_domain \<Rightarrow> int_domain \<Rightarrow> int_domain" where
  "int_domain_max Bottom y = y"
| "int_domain_max x Bottom = x"
| "int_domain_max (Num a) (Num b) = Num (max a b)"
| "int_domain_max x y = Top"

definition int_domain_Value :: "int_domain \<Rightarrow> int_domain Value" where
  "int_domain_Value d =
     \<lparr>default_value = d, is_default_value = (\<lambda>v. v = d), Value_equals = (=),
      Value_leq = int_domain_leq, is_top = (\<lambda>v. v = Top), is_bottom = (\<lambda>v. v = Bottom)\<rparr>"

declare leq_top_loop.simps [simp del]
declare leq_bottom_loop.simps [simp del]
declare union_loop.simps [simp del]
declare intersection_loop.simps [simp del]

section \<open>The example domain\<close>

lemma int_domain_Value_sel [simp]:
  "default_value (int_domain_Value d) = d"
  "is_default_value (int_domain_Value d) v = (v = d)"
  "Value_equals (int_domain_Value d) = (=)"
  "Value_leq (int_domain_Value d) = int_domain_leq"
  "is_top (int_domain_Value d) v = (v = Top)"
  "is_bottom (int_domain_Value d) v = (v = Bottom)"
  by (simp_all add: int_domain_Value_def)

section \<open>Binary search and insertion\<close>

lemma lower_bound_whole:
  "lower_bound c 0 (length c) key = length (takeWhile (\<lambda>p. fst p < key) c)"
  by (simp add: lower_bound_def ComparePairWithKey_def)

lemma lower_bound_from:
  "lower_bound c it (length c) key = it + length (takeWhile (\<lambda>p. fst p < key) (drop it c))"
  by (simp add: lower_bound_def ComparePairWithKey_def)

lemma lower_bound_le: "it \<le> length c \<Longrightarrow> lower_bound c it (length c) key \<le> length c"
  using length_takeWhile_le [of "\<lambda>p. fst p < key" "drop it c"]
  by (simp add: lower_bound_from)

lemma drop_lower_bound:
  "drop (lower_bound c it (length c) key) c = dropWhile (\<lambda>p. fst p < key) (drop it c)"
proof -
  let ?n = "length (takeWhile (\<lambda>p. fst p < key) (drop it c))"
  have a: "lower_bound c it (length c) key = ?n + it"
    unfolding lower_bound_from by (rule add.commute)
  have b: "drop (?n + it) c = drop ?n (drop it c)"
    by (rule drop_drop [symmetric])
  have c: "drop ?n (drop it c) = dropWhile (\<lambda>p. fst p < key) (drop it c)"
    by (rule dropWhile_eq_drop [symmetric])
  show ?thesis unfolding a using b c by (rule trans)
qed

lemma take_lower_bound_whole:
  "take (lower_bound c 0 (length c) key) c = takeWhile (\<lambda>p. fst p < key) c"
  unfolding lower_bound_whole by (rule takeWhile_eq_take [symmetric])

section \<open>Point mutations\<close>

lemma map_of_insert_other:
  "k' \<noteq> k \<Longrightarrow> map_of (xs @ (k, v) # ys) k' = map_of (xs @ ys) k'"
  by (induction xs) auto

lemma map_of_insert_at_other:
  "k' \<noteq> k \<Longrightarrow> map_of (take i c @ (k, v) # drop i c) k' = map_of c k'"
proof -
  assume "k' \<noteq> k"
  then have "map_of (take i c @ (k, v) # drop i c) k' = map_of (take i c @ drop i c) k'"
    by (rule map_of_insert_other)
  then show ?thesis by (simp only: append_take_drop_id)
qed

lemma map_of_erase_at_other:
  assumes "i < length c" "fst (c ! i) = k" "k' \<noteq> k"
  shows "map_of (take i c @ drop (Suc i) c) k' = map_of c k'"
proof -
  have "c = take i c @ (k, snd (c ! i)) # drop (Suc i) c"
    using assms(1,2) by (metis id_take_nth_drop prod.collapse)
  then have "map_of c k' = map_of (take i c @ (k, snd (c ! i)) # drop (Suc i) c) k'"
    by (rule arg_cong)
  also have "\<dots> = map_of (take i c @ drop (Suc i) c) k'"
    using assms(3) by (rule map_of_insert_other)
  finally show ?thesis by (rule sym)
qed

lemma map_of_update_at_other:
  assumes "fst (c ! i) = k" "k' \<noteq> k"
  shows "map_of (c[i := (k, v)]) k' = map_of c k'"
proof (cases "i < length c")
  case True
  then have "c[i := (k, v)] = take i c @ (k, v) # drop (Suc i) c"
    by (simp add: upd_conv_take_nth_drop)
  then have "map_of (c[i := (k, v)]) k' = map_of (take i c @ (k, v) # drop (Suc i) c) k'"
    by (rule arg_cong)
  also have "\<dots> = map_of (take i c @ drop (Suc i) c) k'"
    using assms(2) by (rule map_of_insert_other)
  also have "\<dots> = map_of c k'"
    using True assms by (rule map_of_erase_at_other)
  finally show ?thesis .
next
  case False
  then show ?thesis by (simp add: list_update_beyond)
qed

lemma map_of_erase_key_other:
  "k' \<noteq> k \<Longrightarrow> map_of (filter (\<lambda>p. fst p \<noteq> k) c) k' = map_of c k'"
  by (induction c) auto

lemma try_emplace_cases:
  obtains (found) pos where "try_emplace c key v = (c, pos, False)"
      "pos < length c" "fst (c ! pos) = key"
  | (inserted) pos where "try_emplace c key v = (take pos c @ (key, v) # drop pos c, pos, True)"
      "pos \<le> length c" "pos = lower_bound c 0 (length c) key"
      "\<not> (pos < length c \<and> fst (c ! pos) = key)"
proof -
  let ?p = "lower_bound c 0 (length c) key"
  show ?thesis
  proof (cases "?p < length c \<and> fst (c ! ?p) = key")
    case True
    show ?thesis
    proof (rule found)
      show "try_emplace c key v = (c, ?p, False)"
        using True by (simp add: try_emplace_def Let_def)
      show "?p < length c" using True by simp
      show "fst (c ! ?p) = key" using True by simp
    qed
  next
    case False
    show ?thesis
    proof (rule inserted)
      show "try_emplace c key v = (take ?p c @ (key, v) # drop ?p c, ?p, True)"
        using False by (simp add: try_emplace_def Let_def)
      show "?p \<le> length c" by (simp add: lower_bound_le)
      show "?p = lower_bound c 0 (length c) key" by simp
      show "\<not> (?p < length c \<and> fst (c ! ?p) = key)" using False .
    qed
  qed
qed

lemma try_emplace_key:
  assumes "try_emplace c key v = (c', pos, ins)"
  shows "pos < length c' \<and> fst (c' ! pos) = key"
proof (cases rule: try_emplace_cases [of c key v])
  case (found p)
  then show ?thesis using assms by simp
next
  case (inserted p)
  then show ?thesis using assms by (auto simp: nth_append)
qed

lemma try_emplace_map_of_other:
  assumes "try_emplace c key v = (c', pos, ins)" "k' \<noteq> key"
  shows "map_of c' k' = map_of c k'"
proof (cases rule: try_emplace_cases [of c key v])
  case (found p)
  then show ?thesis using assms by simp
next
  case (inserted p)
  then have "c' = take p c @ (key, v) # drop p c" using assms by simp
  then show ?thesis using map_of_insert_at_other [OF assms(2)] by (simp only:)
qed

lemma boost_insert_or_assign_map_of_other:
  assumes "k' \<noteq> k"
  shows "map_of (boost_insert_or_assign c k v) k' = map_of c k'"
proof -
  obtain c' pos ins where te: "try_emplace c k v = (c', pos, ins)"
    by (metis prod_cases3)
  have c': "map_of c' k' = map_of c k'"
    using te assms by (rule try_emplace_map_of_other)
  have "fst (c' ! pos) = k" using try_emplace_key [OF te] by simp
  then have "map_of (c'[pos := (k, v)]) k' = map_of c' k'"
    using assms by (rule map_of_update_at_other)
  then show ?thesis using c' te by (simp add: boost_insert_or_assign_def)
qed

lemma update_map_of_other:
  assumes "k' \<noteq> k"
  shows "map_of (update V operation k m) k' = map_of m k'"
proof -
  obtain m' it ins where te: "try_emplace m k (default_value V) = (m', it, ins)"
    by (metis prod_cases3)
  have key: "it < length m'" "fst (m' ! it) = k"
    using try_emplace_key [OF te] by simp_all
  have m': "map_of m' k' = map_of m k'"
    using te assms by (rule try_emplace_map_of_other)
  define m'' where "m'' = m'[it := (k, operation (snd (m' ! it)))]"
  have m'': "map_of m'' k' = map_of m' k'"
    unfolding m''_def using key(2) assms by (rule map_of_update_at_other)
  have key'': "it < length m''" "fst (m'' ! it) = k"
    using key by (simp_all add: m''_def)
  have "map_of (erase_at m'' it) k' = map_of m'' k'"
    unfolding erase_at_def using key'' assms by (rule map_of_erase_at_other)
  then show ?thesis
    using m' m'' te key by (simp add: update_def m''_def Let_def)
qed

text \<open>C10: for distinct keys \<open>k\<close> and \<open>k'\<close>, the value \<open>at\<close> returns at \<open>k'\<close> is the
  same before and after \<open>insert_or_assign\<close>, \<open>remove\<close> and \<open>update\<close> at \<open>k\<close>.\<close>

theorem point_mutation_frame:
  assumes "k \<noteq> k'"
  shows "at V (insert_or_assign V k v m) k' = at V m k' \<and>
         at V (remove k m) k' = at V m k' \<and>
         at V (update V operation k m) k' = at V m k'"
proof -
  have ne: "k' \<noteq> k" using assms by simp
  have r: "map_of (remove k m) k' = map_of m k'"
    using ne by (simp add: remove_def erase_key_def map_of_erase_key_other)
  have i: "map_of (insert_or_assign V k v m) k' = map_of m k'"
    using r boost_insert_or_assign_map_of_other [OF ne, of m v]
    by (simp add: insert_or_assign_def)
  have u: "map_of (update V operation k m) k' = map_of m k'"
    using ne by (rule update_map_of_other)
  show ?thesis unfolding at_def find_key_def r i u by simp
qed


theorem point_mutation_frame_witness:
  "(1::nat) \<noteq> 2 \<and>
   at (int_domain_Value Bottom)
     (insert_or_assign (int_domain_Value Bottom) 1 (Num 9) [(1::nat, Num 1), (2, Num 2)]) 2 = Num 2 \<and>
   at (int_domain_Value Bottom) (remove 1 [(1::nat, Num 1), (2, Num 2)]) 2 = Num 2 \<and>
   at (int_domain_Value Bottom)
     (update (int_domain_Value Bottom) (\<lambda>v. Bottom) 1 [(1::nat, Num 1), (2, Num 2)]) 2 = Num 2"
proof -
  have h: "(1::nat) \<noteq> 2" by simp
  have a: "at (int_domain_Value Bottom) [(1::nat, Num 1), (2, Num 2)] 2 = Num 2"
    by (simp add: at_def find_key_def)
  show ?thesis
    using h a
      point_mutation_frame [OF h, of "int_domain_Value Bottom" "Num 9"
        "[(1::nat, Num 1), (2, Num 2)]" "\<lambda>v. Bottom"]
    by (simp only: simp_thms)
qed

lemma erase_key_absent: "key \<notin> fst ` set c \<Longrightarrow> erase_key c key = c"
  by (induction c) (auto simp: erase_key_def)

text \<open>C9: with a value interface whose default value is a default value,
  \<open>insert_or_assign(k, default())\<close> yields the same map as \<open>remove(k)\<close>: no entry with key
  \<open>k\<close> is stored afterwards, the entry found at every other key is the same as before,
  and the map is as it was when it stored no entry with key \<open>k\<close>.\<close>

theorem insert_or_assign_default_is_remove:
  assumes "is_default_value V (default_value V)"
  shows "insert_or_assign V k (default_value V) m = remove k m \<and>
         k \<notin> fst ` set (remove k m) \<and>
         (\<forall>k'. k' \<noteq> k \<longrightarrow> find_key (remove k m) k' = find_key m k') \<and>
         (k \<notin> fst ` set m \<longrightarrow> remove k m = m)"
proof -
  have "insert_or_assign V k (default_value V) m = remove k m"
    using assms by (simp add: insert_or_assign_def)
  moreover have "k \<notin> fst ` set (remove k m)"
    by (auto simp: remove_def erase_key_def)
  moreover have "\<forall>k'. k' \<noteq> k \<longrightarrow> find_key (remove k m) k' = find_key m k'"
    by (simp add: remove_def erase_key_def find_key_def map_of_erase_key_other)
  moreover have "k \<notin> fst ` set m \<longrightarrow> remove k m = m"
    by (simp add: remove_def erase_key_absent)
  ultimately show ?thesis by simp
qed

theorem insert_or_assign_default_is_remove_witness:
  "is_default_value (int_domain_Value Bottom) (default_value (int_domain_Value Bottom)) \<and>
   insert_or_assign (int_domain_Value Bottom) 2 (default_value (int_domain_Value Bottom))
     [(1::nat, Num 1), (2, Num 2)] = [(1, Num 1)] \<and>
   remove 2 [(1::nat, Num 1), (2, Num 2)] = [(1, Num 1)] \<and>
   remove 3 [(1::nat, Num 1), (2, Num 2)] = [(1, Num 1), (2, Num 2)]"
proof -
  have h: "is_default_value (int_domain_Value Bottom) (default_value (int_domain_Value Bottom))"
    by simp
  have r: "remove 2 [(1::nat, Num 1), (2, Num 2)] = [(1, Num 1)]"
    by (simp add: remove_def erase_key_def)
  have a: "(3::nat) \<notin> fst ` set [(1::nat, Num 1), (2, Num 2)]" by simp
  show ?thesis
    using h r a
      insert_or_assign_default_is_remove [OF h, of 2 "[(1::nat, Num 1), (2, Num 2)]"]
      insert_or_assign_default_is_remove [OF h, of 3 "[(1::nat, Num 1), (2, Num 2)]"]
    by (simp only: simp_thms)
qed

section \<open>Intersection with the empty map\<close>

lemma intersection_loop_empty_other: "intersection_loop V combine m 0 [] 0 = []"
  by (subst intersection_loop.simps) (simp add: lower_bound_def erase_range_def)

text \<open>C8: for every map and every combining function, intersecting with a map that
  stores no entries leaves this map with no stored entries, and \<open>at\<close> returns the default
  value at every key afterwards.\<close>

theorem intersection_with_empty_map:
  "intersection_with V combine m empty_map = empty_map \<and>
   (\<forall>k. at V (intersection_with V combine m empty_map) k = default_value V)"
  by (simp add: intersection_with_def empty_map_def intersection_loop_empty_other
      erase_default_values_def filter_with_def at_def find_key_def)

theorem intersection_with_empty_map_witness:
  "intersection_with (int_domain_Value Bottom) int_domain_max
     [(1::nat, Num 1), (2, Num 2)] empty_map = empty_map \<and>
   at (int_domain_Value Bottom)
     (intersection_with (int_domain_Value Bottom) int_domain_max
        [(1::nat, Num 1), (2, Num 2)] empty_map) 1 = Bottom"
  using intersection_with_empty_map
    [of "int_domain_Value Bottom" int_domain_max "[(1::nat, Num 1), (2, Num 2)]"]
  by (metis int_domain_Value_sel(1))

section \<open>The undefined operation\<close>

text \<open>C5: when the default value is neither Top nor Bottom, \<open>leq\<close> raises the
  undefined-operation error instead of returning a boolean; when the default value is
  Top or Bottom it returns a boolean. \<open>leq\<close> is a const member taking a const reference:
  it has no map to return, so both maps are as they were.\<close>

theorem leq_undefined_operation:
  "(\<not> is_top V (default_value V) \<and> \<not> is_bottom V (default_value V)
      \<longrightarrow> leq V m other = Inl undefined_operation) \<and>
   (is_top V (default_value V) \<or> is_bottom V (default_value V)
      \<longrightarrow> (\<exists>b. leq V m other = Inr b))"
  by (auto simp: leq_def)

theorem leq_undefined_operation_witness:
  "leq (int_domain_Value (Num 0)) [(1::nat, Num 1)] [(1::nat, Num 2)] = Inl undefined_operation \<and>
   (\<exists>b. leq (int_domain_Value Top) [(1::nat, Num 1)] [(1::nat, Num 2)] = Inr b) \<and>
   (\<exists>b. leq (int_domain_Value Bottom) [(1::nat, Num 1)] [(1::nat, Num 2)] = Inr b)"
  using leq_undefined_operation [of "int_domain_Value (Num 0)" "[(1::nat, Num 1)]" "[(1::nat, Num 2)]"]
    leq_undefined_operation [of "int_domain_Value Top" "[(1::nat, Num 1)]" "[(1::nat, Num 2)]"]
    leq_undefined_operation [of "int_domain_Value Bottom" "[(1::nat, Num 1)]" "[(1::nat, Num 2)]"]
  by simp

section \<open>The examples\<close>

lemmas flat_map_eval =
  FlatMap_def empty_map_def insert_or_assign_def boost_insert_or_assign_def try_emplace_def
  insert_hint_def insert_ordered_unique_range_def
  lower_bound_def ComparePairWithKey_def remove_def erase_key_def erase_at_def erase_range_def
  erase_default_values_def filter_with_def Let_def

lemma FlatMap_single:
  "\<not> is_default_value V v \<Longrightarrow> FlatMap V [(x, v)] = [(x, v)]"
  by (simp add: flat_map_eval)

lemma FlatMap_pair:
  "\<not> is_default_value V v \<Longrightarrow> \<not> is_default_value V w \<Longrightarrow> x < y \<Longrightarrow>
   FlatMap V [(x, v), (y, w)] = [(x, v), (y, w)]"
  by (simp add: flat_map_eval)

lemma FlatMap_pair_rev:
  "\<not> is_default_value V v \<Longrightarrow> \<not> is_default_value V w \<Longrightarrow> y < x \<Longrightarrow>
   FlatMap V [(x, v), (y, w)] = [(y, w), (x, v)]"
  by (auto simp: flat_map_eval)

text \<open>C6, as the code has it: with a default value that is Top, for \<open>m1 = {x:5}\<close> and
  \<open>m2 = {x:5, y:7}\<close> with distinct keys \<open>x\<close>, \<open>y\<close> and values 5 and 7 that are not default
  values (and 5 below itself), \<open>m1.leq(m2)\<close> returns false and \<open>m2.leq(m1)\<close> returns true:
  \<open>m1\<close> binds \<open>y\<close> to Top, which is not below 7.\<close>

theorem leq_example_default_top:
  assumes "is_top V (default_value V)" "x \<noteq> y"
    "\<not> is_default_value V v5" "\<not> is_default_value V v7" "Value_leq V v5 v5"
  shows "leq V (FlatMap V [(x, v5)]) (FlatMap V [(x, v5), (y, v7)]) = Inr False \<and>
         leq V (FlatMap V [(x, v5), (y, v7)]) (FlatMap V [(x, v5)]) = Inr True"
proof (cases "x < y")
  case True
  then show ?thesis using assms
    by (simp add: FlatMap_single FlatMap_pair leq_def leq_when_default_is_top_def
        leq_top_loop.simps lower_bound_def ComparePairWithKey_def)
next
  case False
  then have "y < x" using assms(2) by simp
  then show ?thesis using assms
    by (simp add: FlatMap_single FlatMap_pair_rev leq_def leq_when_default_is_top_def
        leq_top_loop.simps lower_bound_def ComparePairWithKey_def)
qed

text \<open>C6 as stated (\<open>m1.leq(m2)\<close> true and \<open>m2.leq(m1)\<close> false) fails on the integers
  with Top as the default value.\<close>

theorem leq_example_default_top_counterexample:
  "\<not> (leq (int_domain_Value Top) (FlatMap (int_domain_Value Top) [(1::nat, Num 5)])
          (FlatMap (int_domain_Value Top) [(1::nat, Num 5), (2, Num 7)]) = Inr True \<and>
        leq (int_domain_Value Top) (FlatMap (int_domain_Value Top) [(1::nat, Num 5), (2, Num 7)])
          (FlatMap (int_domain_Value Top) [(1::nat, Num 5)]) = Inr False)"
  by (simp add: FlatMap_single FlatMap_pair leq_def leq_when_default_is_top_def)


theorem leq_example_default_top_witness:
  "is_top (int_domain_Value Top) (default_value (int_domain_Value Top)) \<and> (1::nat) \<noteq> 2 \<and>
   \<not> is_default_value (int_domain_Value Top) (Num 5) \<and>
   \<not> is_default_value (int_domain_Value Top) (Num 7) \<and>
   Value_leq (int_domain_Value Top) (Num 5) (Num 5) \<and>
   leq (int_domain_Value Top) (FlatMap (int_domain_Value Top) [(1::nat, Num 5)])
     (FlatMap (int_domain_Value Top) [(1::nat, Num 5), (2, Num 7)]) = Inr False \<and>
   leq (int_domain_Value Top) (FlatMap (int_domain_Value Top) [(1::nat, Num 5), (2, Num 7)])
     (FlatMap (int_domain_Value Top) [(1::nat, Num 5)]) = Inr True"
proof -
  have h: "is_top (int_domain_Value Top) (default_value (int_domain_Value Top))"
    "(1::nat) \<noteq> 2"
    "\<not> is_default_value (int_domain_Value Top) (Num 5)"
    "\<not> is_default_value (int_domain_Value Top) (Num 7)"
    "Value_leq (int_domain_Value Top) (Num 5) (Num 5)"
    by simp_all
  show ?thesis
    using h leq_example_default_top [OF h] by (simp only: simp_thms)
qed

text \<open>C7: with Bottom as the default value and the integer maximum as combining
  function, for \<open>m1 = {a:1, b:2}\<close> and \<open>m2 = {b:2, c:3}\<close> with keys \<open>a < b < c\<close>,
  \<open>union_with\<close> yields \<open>{a:1, b:2, c:3}\<close> and \<open>intersection_with\<close> yields \<open>{b:2}\<close>.\<close>

theorem union_intersection_example:
  assumes "a < b" "b < c"
  shows "union_with (int_domain_Value Bottom) int_domain_max
           (FlatMap (int_domain_Value Bottom) [(a, Num 1), (b, Num 2)])
           (FlatMap (int_domain_Value Bottom) [(b, Num 2), (c, Num 3)])
         = [(a, Num 1), (b, Num 2), (c, Num 3)] \<and>
         intersection_with (int_domain_Value Bottom) int_domain_max
           (FlatMap (int_domain_Value Bottom) [(a, Num 1), (b, Num 2)])
           (FlatMap (int_domain_Value Bottom) [(b, Num 2), (c, Num 3)])
         = [(b, Num 2)]"
proof -
  let ?V = "int_domain_Value Bottom"
  have m1: "FlatMap ?V [(a, Num 1), (b, Num 2)] = [(a, Num 1), (b, Num 2)]"
    using assms by (simp add: FlatMap_pair)
  have m2: "FlatMap ?V [(b, Num 2), (c, Num 3)] = [(b, Num 2), (c, Num 3)]"
    using assms by (simp add: FlatMap_pair)
  have ac: "a < c" using assms by (rule less_trans)
  have ord: "\<not> b < a" "\<not> c < b" "\<not> c < a" "a \<noteq> b" "b \<noteq> c" "a \<noteq> c"
    using assms ac by simp_all
  have u: "union_loop int_domain_max [(a, Num 1), (b, Num 2)] 0 [(b, Num 2), (c, Num 3)] 0
      = [(a, Num 1), (b, Num 2), (c, Num 3)]"
    using assms ac ord
    by (simp add: union_loop.simps lower_bound_def ComparePairWithKey_def
        insert_ordered_unique_range_def insert_hint_def try_emplace_def Let_def)
  have i: "intersection_loop ?V int_domain_max [(a, Num 1), (b, Num 2)] 0 [(b, Num 2), (c, Num 3)] 0
      = [(a, Bottom), (b, Num 2)]"
    using assms ac ord
    by (simp add: intersection_loop.simps lower_bound_def ComparePairWithKey_def
        erase_range_def Let_def)
  show ?thesis
    by (simp add: m1 m2 union_with_def intersection_with_def u i
        erase_default_values_def filter_with_def)
qed

theorem union_intersection_example_witness:
  "(1::nat) < 2 \<and> (2::nat) < 3 \<and>
   union_with (int_domain_Value Bottom) int_domain_max
     (FlatMap (int_domain_Value Bottom) [(1::nat, Num 1), (2, Num 2)])
     (FlatMap (int_domain_Value Bottom) [(2, Num 2), (3, Num 3)])
   = [(1, Num 1), (2, Num 2), (3, Num 3)] \<and>
   intersection_with (int_domain_Value Bottom) int_domain_max
     (FlatMap (int_domain_Value Bottom) [(1::nat, Num 1), (2, Num 2)])
     (FlatMap (int_domain_Value Bottom) [(2, Num 2), (3, Num 3)])
   = [(2, Num 2)]"
proof -
  have h: "(1::nat) < 2" "(2::nat) < 3" by simp_all
  show ?thesis
    using h union_intersection_example [OF h] by (simp only: simp_thms)
qed

section \<open>The sparsity invariant\<close>

lemma I1_iff: "I1 V m \<longleftrightarrow> (\<forall>p \<in> set m. \<not> is_default_value V (snd p))"
  by (simp add: I1_def list_all_iff)

lemma I1_Nil: "I1 V []"
  by (simp add: I1_def)

lemma I1_subset: "I1 V m \<Longrightarrow> set m' \<subseteq> set m \<Longrightarrow> I1 V m'"
  by (auto simp: I1_iff)

lemma I1_subset_insert:
  "I1 V m \<Longrightarrow> \<not> is_default_value V (snd x) \<Longrightarrow> set m' \<subseteq> insert x (set m) \<Longrightarrow> I1 V m'"
  by (auto simp: I1_iff)

lemma I1_filter_with: "I1 V m \<Longrightarrow> I1 V (filter_with predicate m)"
  by (auto simp: I1_iff filter_with_def)

lemma I1_erase_default_values: "I1 V (erase_default_values V m)"
  by (simp add: I1_iff erase_default_values_def filter_with_def)

lemma I1_remove: "I1 V m \<Longrightarrow> I1 V (remove key m)"
  by (auto simp: I1_iff remove_def erase_key_def)

lemma try_emplace_rest:
  assumes "try_emplace c key v = (c', pos, ins)"
  shows "set (take pos c') \<union> set (drop (Suc pos) c') \<subseteq> set c"
proof (cases rule: try_emplace_cases [of c key v])
  case (found p)
  then have "c' = c" using assms by simp
  then show ?thesis using set_take_subset set_drop_subset by fast
next
  case (inserted p)
  then have "c' = take p c @ (key, v) # drop p c" "pos = p" using assms by simp_all
  moreover have "length (take p c) = p" using inserted(2) by simp
  ultimately have "take pos c' = take p c" "drop (Suc pos) c' = drop p c"
    by simp_all
  then show ?thesis using set_take_subset set_drop_subset by fastforce
qed

lemma set_update_at:
  "it < length c \<Longrightarrow> set (c[it := x]) = insert x (set (take it c) \<union> set (drop (Suc it) c))"
  by (simp add: upd_conv_take_nth_drop)

lemma set_erase_at_update:
  "set (erase_at (c[it := x]) it) = set (take it c) \<union> set (drop (Suc it) c)"
  by (simp add: erase_at_def)

lemma I1_boost_insert_or_assign:
  assumes "I1 V c" "\<not> is_default_value V v"
  shows "I1 V (boost_insert_or_assign c key v)"
proof -
  obtain c' pos ins where te: "try_emplace c key v = (c', pos, ins)"
    by (metis prod_cases3)
  have pos: "pos < length c'" using try_emplace_key [OF te] by simp
  have rest: "set (take pos c') \<union> set (drop (Suc pos) c') \<subseteq> set c"
    using te by (rule try_emplace_rest)
  have "ins \<Longrightarrow> c' ! pos = (key, v)"
    using te by (cases rule: try_emplace_cases [of c key v]) (auto simp: nth_append)
  then have "ins \<Longrightarrow> c'[pos := (key, v)] = c'"
    by (metis list_update_id)
  then have "boost_insert_or_assign c key v = c'[pos := (key, v)]"
    using te by (simp add: boost_insert_or_assign_def)
  then have sub: "set (boost_insert_or_assign c key v) \<subseteq> insert (key, v) (set c)"
    using rest pos by (auto simp: set_update_at)
  show ?thesis
    by (rule I1_subset_insert [OF assms(1) _ sub]) (simp add: assms(2))
qed

lemma I1_insert_or_assign: "I1 V m \<Longrightarrow> I1 V (insert_or_assign V key v m)"
  by (simp add: insert_or_assign_def I1_remove I1_boost_insert_or_assign)

lemma I1_fold_insert_or_assign:
  "I1 V m \<Longrightarrow> I1 V (fold (\<lambda>p m. insert_or_assign V (fst p) (snd p) m) l m)"
  by (induction l arbitrary: m) (simp_all add: I1_insert_or_assign)

lemma I1_FlatMap: "I1 V (FlatMap V l)"
  by (simp add: FlatMap_def empty_map_def I1_fold_insert_or_assign I1_Nil)

lemma I1_update:
  assumes "I1 V m"
  shows "I1 V (update V operation key m)"
proof -
  obtain m' it ins where te: "try_emplace m key (default_value V) = (m', it, ins)"
    by (metis prod_cases3)
  have it: "it < length m'" using try_emplace_key [OF te] by simp
  have rest: "set (take it m') \<union> set (drop (Suc it) m') \<subseteq> set m"
    using te by (rule try_emplace_rest)
  define x where "x = (fst (m' ! it), operation (snd (m' ! it)))"
  define m'' where "m'' = m'[it := x]"
  have x: "m'' ! it = x" using it by (simp add: m''_def)
  have upd: "update V operation key m = (if is_default_value V (snd x) then erase_at m'' it else m'')"
    using te x by (simp add: update_def Let_def m''_def x_def)
  show ?thesis
  proof (cases "is_default_value V (snd x)")
    case True
    have "set (erase_at m'' it) \<subseteq> set m"
      unfolding m''_def set_erase_at_update using rest .
    then have "I1 V (erase_at m'' it)" using assms I1_subset by blast
    then show ?thesis using True upd by simp
  next
    case False
    have "set m'' \<subseteq> insert x (set m)"
      unfolding m''_def using rest it by (auto simp: set_update_at)
    then have "I1 V m''" using assms False by (rule_tac I1_subset_insert)
    then show ?thesis using False upd by simp
  qed
qed

lemma I1_map_values: "I1 V (map_values V f m)"
proof (cases "list_ex (\<lambda>p. is_default_value V (snd p)) (map (\<lambda>p. (fst p, f (snd p))) m)")
  case True
  then show ?thesis by (simp add: map_values_def I1_erase_default_values)
next
  case False
  then have "I1 V (map (\<lambda>p. (fst p, f (snd p))) m)"
    by (simp add: I1_iff list_ex_iff)
  then show ?thesis using False by (simp add: map_values_def)
qed

text \<open>C2: from a map that stores no default value, each of \<open>insert_or_assign\<close>,
  \<open>remove\<close>, \<open>update\<close>, \<open>map\<close>, \<open>filter\<close>, \<open>union_with\<close>, \<open>intersection_with\<close> and \<open>clear\<close>
  yields a map that stores no default value, and so does the construction from an
  initializer list.\<close>

theorem sparsity_preserved:
  assumes "I1 V m"
  shows "I1 V (insert_or_assign V key v m) \<and>
         I1 V (remove key m) \<and>
         I1 V (update V operation key m) \<and>
         I1 V (map_values V f m) \<and>
         I1 V (filter_with predicate m) \<and>
         I1 V (union_with V combine m other) \<and>
         I1 V (intersection_with V combine m other) \<and>
         I1 V (clear m) \<and>
         I1 V (FlatMap V l)"
  using assms
  by (simp add: I1_insert_or_assign I1_remove I1_update I1_map_values I1_filter_with
      union_with_def intersection_with_def I1_erase_default_values I1_FlatMap clear_def I1_Nil)


theorem sparsity_preserved_witness:
  "I1 (int_domain_Value Bottom) [(1::nat, Num 1), (2, Num 2)] \<and>
   I1 (int_domain_Value Bottom)
     (insert_or_assign (int_domain_Value Bottom) 1 Bottom [(1::nat, Num 1), (2, Num 2)]) \<and>
   I1 (int_domain_Value Bottom)
     (update (int_domain_Value Bottom) (\<lambda>v. Bottom) 1 [(1::nat, Num 1), (2, Num 2)]) \<and>
   I1 (int_domain_Value Bottom)
     (map_values (int_domain_Value Bottom) (\<lambda>v. Bottom) [(1::nat, Num 1), (2, Num 2)]) \<and>
   I1 (int_domain_Value Bottom)
     (union_with (int_domain_Value Bottom) (\<lambda>v w. Bottom) [(1::nat, Num 1), (2, Num 2)]
        [(2, Num 2), (3, Bottom)]) \<and>
   I1 (int_domain_Value Bottom) (FlatMap (int_domain_Value Bottom) [(1::nat, Bottom), (2, Num 2)])"
proof -
  have h: "I1 (int_domain_Value Bottom) [(1::nat, Num 1), (2, Num 2)]"
    by (simp add: I1_def)
  show ?thesis
    using h sparsity_preserved [OF h, where key = 1 and v = Bottom
        and operation = "\<lambda>v. Bottom" and f = "\<lambda>v. Bottom" and predicate = "\<lambda>k v. True"
        and combine = "\<lambda>v w. Bottom" and other = "[(2, Num 2), (3, Bottom)]"
        and l = "[(1::nat, Bottom), (2, Num 2)]"]
    by (simp only: simp_thms)
qed

section \<open>The order invariant\<close>

lemma I2_iff: "I2 m \<longleftrightarrow> sorted_wrt (\<lambda>p q. fst p < fst q) m"
  by (simp add: I2_def sorted_wrt_map)

lemma I2_Nil: "I2 []"
  by (simp add: I2_def)

lemma I2_filter: "I2 m \<Longrightarrow> I2 (filter P m)"
  by (simp add: I2_iff sorted_wrt_filter)

lemma I2_take: "I2 m \<Longrightarrow> I2 (take n m)"
  by (simp add: I2_iff sorted_wrt_take)

lemma I2_drop: "I2 m \<Longrightarrow> I2 (drop n m)"
  by (simp add: I2_iff sorted_wrt_drop)

lemma I2_append:
  "I2 (xs @ ys) \<longleftrightarrow> I2 xs \<and> I2 ys \<and> (\<forall>p \<in> set xs. \<forall>q \<in> set ys. fst p < fst q)"
  by (simp add: I2_iff sorted_wrt_append)

lemma I2_Cons: "I2 (x # xs) \<longleftrightarrow> (\<forall>q \<in> set xs. fst x < fst q) \<and> I2 xs"
  by (simp add: I2_iff)

lemma I2_remove: "I2 m \<Longrightarrow> I2 (remove key m)"
  by (simp add: remove_def erase_key_def I2_filter)

lemma I2_filter_with: "I2 m \<Longrightarrow> I2 (filter_with predicate m)"
  by (simp add: filter_with_def I2_filter)

lemma I2_erase_default_values: "I2 m \<Longrightarrow> I2 (erase_default_values V m)"
  by (simp add: erase_default_values_def I2_filter_with)

lemma I2_erase_at: assumes "I2 c" shows "I2 (erase_at c i)"
proof -
  have "I2 (take i c @ drop i c)" using assms by simp
  then have "I2 (take i c @ drop (Suc i) c)"
    unfolding I2_append using I2_drop [OF assms] set_drop_subset_set_drop [of i "Suc i" c]
    by auto
  then show ?thesis by (simp add: erase_at_def)
qed

lemma I2_update_value:
  assumes "I2 c" "fst x = fst (c ! i)"
  shows "I2 (c[i := x])"
proof -
  have "map fst (c[i := x]) = (map fst c)[i := fst x]" by (rule map_update)
  also have "\<dots> = map fst c"
  proof (cases "i < length c")
    case True
    then show ?thesis using assms(2) by (simp add: list_update_same_conv)
  next
    case False
    then show ?thesis by (simp add: list_update_beyond)
  qed
  finally show ?thesis using assms(1) by (simp add: I2_def)
qed

lemma dropWhile_sorted_keys:
  assumes "I2 c" "q \<in> set (dropWhile (\<lambda>p. fst p < key) c)"
  shows "\<not> fst q < key"
proof -
  let ?d = "dropWhile (\<lambda>p. fst p < key) c"
  have d: "I2 ?d" using assms(1) I2_drop by (metis dropWhile_eq_drop)
  obtain y ys where ys: "?d = y # ys" using assms(2) by (cases ?d) auto
  have y: "\<not> fst y < key" using ys by (metis hd_dropWhile list.sel(1) list.distinct(1))
  show ?thesis
  proof (cases "q = y")
    case True then show ?thesis using y by simp
  next
    case False
    then have "q \<in> set ys" using assms(2) ys by simp
    then have "fst y < fst q" using d ys by (simp add: I2_Cons)
    then show ?thesis using y by auto
  qed
qed

lemma I2_try_emplace:
  assumes "I2 c" "try_emplace c key v = (c', pos, ins)"
  shows "I2 c'"
proof (cases rule: try_emplace_cases [of c key v])
  case (found p)
  then show ?thesis using assms by simp
next
  case (inserted p)
  let ?P = "\<lambda>p. fst p < key"
  have tk: "take p c = takeWhile ?P c" using inserted(3) by (simp add: take_lower_bound_whole)
  have dr: "drop p c = dropWhile ?P c" using inserted(3) drop_lower_bound [of c 0 key] by simp
  have c': "c' = takeWhile ?P c @ (key, v) # dropWhile ?P c"
    using inserted(1) assms(2) tk dr by simp
  have lo: "\<forall>q \<in> set (takeWhile ?P c). fst q < key"
    by (auto dest: set_takeWhileD)
  have hi: "\<forall>q \<in> set (dropWhile ?P c). key < fst q"
  proof
    fix q assume q: "q \<in> set (dropWhile ?P c)"
    then have ge: "\<not> fst q < key" using assms(1) by (rule dropWhile_sorted_keys [rotated])
    obtain y ys where ys: "dropWhile ?P c = y # ys" using q by (cases "dropWhile ?P c") auto
    have "p < length c" using ys dr by (metis drop_eq_Nil list.distinct(1) not_le)
    moreover have "c ! p = y" using ys dr by (metis hd_drop_conv_nth calculation list.sel(1))
    ultimately have ne: "fst y \<noteq> key" using inserted(4) by simp
    have yge: "\<not> fst y < key" using ys by (metis hd_dropWhile list.sel(1) list.distinct(1))
    have "I2 (y # ys)" using assms(1) I2_drop ys by (metis dropWhile_eq_drop)
    then have "q = y \<or> fst y < fst q" using q ys by (auto simp: I2_Cons)
    then show "key < fst q" using ne yge by auto
  qed
  have "I2 (takeWhile ?P c @ dropWhile ?P c)" using assms(1) by simp
  then show ?thesis unfolding c' I2_append I2_Cons using lo hi by auto
qed


lemma I2_insert_hint:
  "I2 c \<Longrightarrow> insert_hint c hint p = (c', pos) \<Longrightarrow> I2 c'"
  by (auto simp: insert_hint_def split: prod.splits dest: I2_try_emplace)

lemma I2_insert_ordered_unique_range:
  "I2 c \<Longrightarrow> I2 (insert_ordered_unique_range c rng)"
  unfolding insert_ordered_unique_range_def
proof (induction rng arbitrary: c)
  case Nil
  then show ?case by simp
next
  case (Cons p rng)
  have "I2 (fst (insert_hint c (length c) p))"
    using Cons.prems I2_insert_hint by (metis prod.collapse)
  then show ?case using Cons.IH by simp
qed

lemma I2_boost_insert_or_assign:
  assumes "I2 c"
  shows "I2 (boost_insert_or_assign c key v)"
proof -
  obtain c' pos ins where te: "try_emplace c key v = (c', pos, ins)"
    by (metis prod_cases3)
  have c': "I2 c'" using assms te by (rule I2_try_emplace)
  have "fst (key, v) = fst (c' ! pos)" using try_emplace_key [OF te] by simp
  then have "I2 (c'[pos := (key, v)])" using c' by (rule I2_update_value [rotated])
  then show ?thesis using c' te by (simp add: boost_insert_or_assign_def)
qed

lemma I2_insert_or_assign: "I2 m \<Longrightarrow> I2 (insert_or_assign V key v m)"
  by (simp add: insert_or_assign_def I2_remove I2_boost_insert_or_assign)

lemma I2_update:
  assumes "I2 m"
  shows "I2 (update V operation key m)"
proof -
  obtain m' it ins where te: "try_emplace m key (default_value V) = (m', it, ins)"
    by (metis prod_cases3)
  have m': "I2 m'" using assms te by (rule I2_try_emplace)
  define m'' where "m'' = m'[it := (fst (m' ! it), operation (snd (m' ! it)))]"
  have m'': "I2 m''" unfolding m''_def using m' by (rule I2_update_value) simp
  then have "I2 (erase_at m'' it)" by (rule I2_erase_at)
  then show ?thesis using m'' te by (simp add: update_def Let_def m''_def)
qed

lemma I2_map_values:
  assumes "I2 m"
  shows "I2 (map_values V f m)"
proof -
  have "map fst (map (\<lambda>p. (fst p, f (snd p))) m) = map fst m" by (simp add: comp_def)
  then have "I2 (map (\<lambda>p. (fst p, f (snd p))) m)" using assms by (simp only: I2_def)
  then show ?thesis by (simp add: map_values_def Let_def I2_erase_default_values)
qed

lemma I2_union_loop: "I2 m \<Longrightarrow> I2 (union_loop combine m it other other_it)"
proof (induction combine m it other other_it rule: union_loop.induct)
  case (1 combine m it other other_it)
  let ?x = "lower_bound m it (length m) (fst (other ! other_it))"
  show ?case
  proof (cases "other_it < length other")
    case False
    then show ?thesis using "1.prems" by (subst union_loop.simps) simp
  next
    case True
    show ?thesis
    proof (cases "?x = length m")
      case at_end: True
      then show ?thesis using True "1.prems"
        by (subst union_loop.simps) (simp add: Let_def I2_insert_ordered_unique_range)
    next
      case not_end: False
      show ?thesis
      proof (cases "fst (m ! ?x) = fst (other ! other_it)")
        case same: True
        have "I2 (m[?x := (fst (m ! ?x), combine (snd (m ! ?x)) (snd (other ! other_it)))])"
          using "1.prems" by (rule I2_update_value) simp
        then have "I2 (union_loop combine
            (m[?x := (fst (m ! ?x), combine (snd (m ! ?x)) (snd (other ! other_it)))])
            (Suc ?x) other (Suc other_it))"
          using True not_end same by (intro "1.IH"(1) [of ?x]) simp_all
        then show ?thesis using True not_end same
          by (subst union_loop.simps) (simp add: Let_def)
      next
        case differ: False
        obtain m' it'' where ih: "(m', it'') = insert_hint m ?x (other ! other_it)"
          by (metis prod.collapse)
        have "I2 m'" using "1.prems" ih I2_insert_hint by metis
        then have "I2 (union_loop combine m' (Suc it'') other (Suc other_it))"
          using True not_end differ ih by (intro "1.IH"(2) [of ?x m' it'']) simp_all
        then show ?thesis using True not_end differ ih [symmetric]
          by (subst union_loop.simps) (simp add: Let_def)
      qed
    qed
  qed
qed

lemma I2_union_with: "I2 m \<Longrightarrow> I2 (union_with V combine m other)"
  by (simp add: union_with_def I2_erase_default_values I2_union_loop)

lemma I2_intersection_loop:
  "I2 m \<Longrightarrow> I2 (intersection_loop V combine m it other other_it)"
proof (induction V combine m it other other_it rule: intersection_loop.induct)
  case (1 V combine m it other other_it)
  let ?x = "lower_bound other other_it (length other) (fst (m ! it))"
  show ?case
  proof (cases "it < length m")
    case False
    then show ?thesis using "1.prems" by (subst intersection_loop.simps) simp
  next
    case True
    show ?thesis
    proof (cases "?x = length other")
      case at_end: True
      then show ?thesis using True "1.prems"
        by (subst intersection_loop.simps) (simp add: Let_def erase_range_def I2_take)
    next
      case not_end: False
      show ?thesis
      proof (cases "fst (m ! it) = fst (other ! ?x)")
        case same: True
        have "I2 (m[it := (fst (m ! it), combine (snd (m ! it)) (snd (other ! ?x)))])"
          using "1.prems" by (rule I2_update_value) simp
        then have "I2 (intersection_loop V combine
            (m[it := (fst (m ! it), combine (snd (m ! it)) (snd (other ! ?x)))])
            (Suc it) other (Suc ?x))"
          using True not_end same by (intro "1.IH"(1) [of ?x]) simp_all
        then show ?thesis using True not_end same
          by (subst intersection_loop.simps) (simp add: Let_def)
      next
        case differ: False
        have "I2 (m[it := (fst (m ! it), default_value V)])"
          using "1.prems" by (rule I2_update_value) simp
        then have "I2 (intersection_loop V combine (m[it := (fst (m ! it), default_value V)])
            (Suc it) other ?x)"
          using True not_end differ by (intro "1.IH"(2) [of ?x]) simp_all
        then show ?thesis using True not_end differ
          by (subst intersection_loop.simps) (simp add: Let_def)
      qed
    qed
  qed
qed

lemma I2_intersection_with: "I2 m \<Longrightarrow> I2 (intersection_with V combine m other)"
  by (simp add: intersection_with_def I2_erase_default_values I2_intersection_loop)

lemma I2_apply_mutation: "I2 m \<Longrightarrow> I2 (apply_mutation V mutation m)"
  by (cases mutation)
    (simp_all add: I2_insert_or_assign I2_remove I2_update I2_map_values I2_filter_with
      I2_union_with I2_intersection_with clear_def I2_Nil)

text \<open>C3: from a map whose stored keys are strictly ascending, every sequence of
  \<open>insert_or_assign\<close>, \<open>remove\<close>, \<open>update\<close>, \<open>map\<close>, \<open>filter\<close>, \<open>union_with\<close>,
  \<open>intersection_with\<close> and \<open>clear\<close> calls yields a map whose stored keys are strictly
  ascending, with no key stored twice.\<close>

theorem order_preserved:
  assumes "I2 m"
  shows "I2 (apply_mutations V mutations m) \<and>
         distinct (map fst (apply_mutations V mutations m))"
proof -
  have "I2 (apply_mutations V mutations m)"
    using assms unfolding apply_mutations_def
    by (induction mutations arbitrary: m) (simp_all add: I2_apply_mutation)
  then show ?thesis by (simp add: I2_def strict_sorted_iff)
qed

theorem order_preserved_witness:
  "I2 [(1::nat, Num 1), (4, Num 4)] \<and>
   I2 (apply_mutations (int_domain_Value Bottom)
     [Clear, Insert_or_assign 3 (Num 3), Update (\<lambda>v. Num 2) 2, Remove 4,
      Union_with int_domain_max [(0, Num 7), (3, Num 5), (9, Num 9)],
      Intersection_with int_domain_max [(3, Num 1), (9, Num 1)],
      Map_values (\<lambda>v. Num 0), Filter_with (\<lambda>k v. k < 5)]
     [(1::nat, Num 1), (4, Num 4)])"
proof -
  have h: "I2 [(1::nat, Num 1), (4, Num 4)]" by (simp add: I2_def)
  show ?thesis
    using h order_preserved [OF h, of "int_domain_Value Bottom"
      "[Clear, Insert_or_assign 3 (Num 3), Update (\<lambda>v. Num 2) 2, Remove 4,
        Union_with int_domain_max [(0, Num 7), (3, Num 5), (9, Num 9)],
        Intersection_with int_domain_max [(3, Num 1), (9, Num 1)],
        Map_values (\<lambda>v. Num 0), Filter_with (\<lambda>k v. k < 5)]"]
    by (simp only: simp_thms)
qed

section \<open>Equality\<close>

lemma I2_distinct: "I2 m \<Longrightarrow> distinct (map fst m)"
  by (simp add: I2_def strict_sorted_iff)

lemma at_stored: "I2 m \<Longrightarrow> (k, v) \<in> set m \<Longrightarrow> at V m k = v"
  by (simp add: at_def find_key_def I2_distinct)

lemma at_nth: "I2 m \<Longrightarrow> i < length m \<Longrightarrow> at V m (fst (m ! i)) = snd (m ! i)"
  by (rule at_stored) simp_all

lemma at_absent: "k \<notin> fst ` set m \<Longrightarrow> at V m k = default_value V"
  by (simp add: at_def find_key_def map_of_eq_None_iff [THEN iffD2])

lemma stored_key_cases:
  obtains (stored) v where "(k, v) \<in> set m" | (absent) "k \<notin> fst ` set m"
  by force

lemma I2_same_keys:
  assumes "I2 m1" "I2 m2" "fst ` set m1 = fst ` set m2"
  shows "map fst m1 = map fst m2"
proof -
  have "sorted (map fst m1)" "distinct (map fst m1)" "sorted (map fst m2)" "distinct (map fst m2)"
    using assms(1,2) by (simp_all add: I2_def strict_sorted_iff)
  moreover have "set (map fst m1) = set (map fst m2)" using assms(3) by simp
  ultimately show ?thesis by (rule sorted_distinct_set_unique)
qed

lemma equals_nth:
  "equals V m1 m2 \<longleftrightarrow>
     map fst m1 = map fst m2 \<and> (\<forall>i < length m1. Value_equals V (snd (m1 ! i)) (snd (m2 ! i)))"
  by (auto simp: equals_def PairEqual_def list_all2_conv_all_nth list_eq_iff_nth_eq)

lemma equals_stored:
  assumes "I2 m1" "I2 m2"
  shows "equals V m1 m2 \<longleftrightarrow>
    fst ` set m1 = fst ` set m2 \<and> (\<forall>k \<in> fst ` set m1. Value_equals V (at V m1 k) (at V m2 k))"
    (is "?L \<longleftrightarrow> ?K \<and> ?R")
proof
  assume L: ?L
  then have keys: "map fst m1 = map fst m2"
    and vals: "\<forall>i < length m1. Value_equals V (snd (m1 ! i)) (snd (m2 ! i))"
    by (simp_all add: equals_nth)
  have len: "length m1 = length m2" using keys by (metis length_map)
  have K: ?K using keys by (metis set_map)
  have R: ?R
  proof
    fix k assume "k \<in> fst ` set m1"
    then obtain i where i: "i < length m1" "fst (m1 ! i) = k"
      by (metis fst_conv imageE in_set_conv_nth)
    then have k2: "fst (m2 ! i) = k" using keys len by (metis nth_map)
    have "at V m1 k = snd (m1 ! i)" using at_nth [OF assms(1) i(1)] i(2) by simp
    moreover have "at V m2 k = snd (m2 ! i)" using at_nth [OF assms(2), of i] i(1) len k2 by simp
    ultimately show "Value_equals V (at V m1 k) (at V m2 k)" using vals i(1) by simp
  qed
  show "?K \<and> ?R" using K R by simp
next
  assume KR: "?K \<and> ?R"
  then have "fst ` set m1 = fst ` set m2" by (rule conjunct1)
  with assms have keys: "map fst m1 = map fst m2" by (rule I2_same_keys)
  have len: "length m1 = length m2" using keys by (metis length_map)
  have "\<forall>i < length m1. Value_equals V (snd (m1 ! i)) (snd (m2 ! i))"
  proof (intro allI impI)
    fix i assume i: "i < length m1"
    have k2: "fst (m2 ! i) = fst (m1 ! i)" using keys len i by (metis nth_map)
    have "at V m1 (fst (m1 ! i)) = snd (m1 ! i)" using assms(1) i by (rule at_nth)
    moreover have "at V m2 (fst (m1 ! i)) = snd (m2 ! i)"
      using at_nth [OF assms(2), of i] i len k2 by simp
    moreover have "Value_equals V (at V m1 (fst (m1 ! i))) (at V m2 (fst (m1 ! i)))"
      using KR i by simp
    ultimately show "Value_equals V (snd (m1 ! i)) (snd (m2 ! i))" by simp
  qed
  then show ?L using keys by (simp add: equals_nth)
qed


lemma I1_stored: "I1 V m \<Longrightarrow> (k, v) \<in> set m \<Longrightarrow> \<not> is_default_value V v"
  by (auto simp: I1_iff)

lemma stored_not_default:
  assumes "I1 V m" "I2 m" "k \<in> fst ` set m"
  shows "\<not> is_default_value V (at V m k)"
proof -
  obtain v where v: "(k, v) \<in> set m" using assms(3) by force
  then have "at V m k = v" using assms(2) by (simp add: at_stored)
  then show ?thesis using I1_stored [OF assms(1) v] by simp
qed

lemma equal_values_same_keys:
  assumes "I1 V m1" "I2 m1"
    "is_default_value V (default_value V)"
    "\<forall>a b. Value_equals V a b \<longrightarrow> is_default_value V a = is_default_value V b"
    "Value_equals V (at V m1 k) (at V m2 k) \<or> Value_equals V (at V m2 k) (at V m1 k)"
    "k \<in> fst ` set m1"
  shows "k \<in> fst ` set m2"
proof (rule ccontr)
  assume "k \<notin> fst ` set m2"
  then have "at V m2 k = default_value V" by (rule at_absent)
  then have "is_default_value V (at V m1 k)" using assms(3,4,5) by metis
  then show False using stored_not_default [OF assms(1,2,6)] by simp
qed

text \<open>C4: for two maps that satisfy the invariants, under a value interface whose
  \<open>equals\<close> holds of the default value with itself and relates default values to default
  values only, \<open>equals\<close> returns true if and only if the two maps store the same keys
  and \<open>Value::equals\<close> holds of the two values at each stored key; and, equivalently, if
  and only if \<open>Value::equals\<close> holds of the values \<open>at\<close> returns at every key.\<close>

theorem equals_iff:
  assumes "I1 V m1" "I1 V m2" "I2 m1" "I2 m2"
    "is_default_value V (default_value V)"
    "Value_equals V (default_value V) (default_value V)"
    "\<forall>a b. Value_equals V a b \<longrightarrow> is_default_value V a = is_default_value V b"
  shows "(equals V m1 m2 \<longleftrightarrow>
            fst ` set m1 = fst ` set m2 \<and>
            (\<forall>k \<in> fst ` set m1. Value_equals V (at V m1 k) (at V m2 k))) \<and>
         (equals V m1 m2 \<longleftrightarrow> (\<forall>k. Value_equals V (at V m1 k) (at V m2 k)))"
proof -
  let ?K = "fst ` set m1 = fst ` set m2"
  let ?R = "\<forall>k \<in> fst ` set m1. Value_equals V (at V m1 k) (at V m2 k)"
  let ?A = "\<forall>k. Value_equals V (at V m1 k) (at V m2 k)"
  have stored: "equals V m1 m2 \<longleftrightarrow> ?K \<and> ?R"
    using assms(3,4) by (rule equals_stored)
  have "?K \<and> ?R \<longleftrightarrow> ?A"
  proof
    assume KR: "?K \<and> ?R"
    show ?A
    proof
      fix k
      show "Value_equals V (at V m1 k) (at V m2 k)"
      proof (cases "k \<in> fst ` set m1")
        case True
        then show ?thesis using KR by blast
      next
        case False
        then have "at V m1 k = default_value V" by (rule at_absent)
        moreover have "k \<notin> fst ` set m2" using False KR by simp
        then have "at V m2 k = default_value V" by (rule at_absent)
        ultimately show ?thesis using assms(6) by simp
      qed
    qed
  next
    assume A: ?A
    have "k \<in> fst ` set m2" if "k \<in> fst ` set m1" for k
      using assms(1,3,5,7) _ that by (rule equal_values_same_keys) (simp add: A)
    moreover have "k \<in> fst ` set m1" if "k \<in> fst ` set m2" for k
      using assms(2,4,5,7) _ that by (rule equal_values_same_keys) (simp add: A)
    ultimately have ?K by blast
    then show "?K \<and> ?R" using A by simp
  qed
  then show ?thesis using stored by simp
qed

theorem equals_iff_witness:
  "I1 (int_domain_Value Bottom) [(1::nat, Num 1), (2, Num 2)] \<and>
   I2 [(1::nat, Num 1), (2, Num 2)] \<and>
   I1 (int_domain_Value Bottom) [(1::nat, Num 1), (3, Num 2)] \<and>
   I2 [(1::nat, Num 1), (3, Num 2)] \<and>
   is_default_value (int_domain_Value Bottom) (default_value (int_domain_Value Bottom)) \<and>
   equals (int_domain_Value Bottom) [(1::nat, Num 1), (2, Num 2)] [(1::nat, Num 1), (2, Num 2)] \<and>
   \<not> equals (int_domain_Value Bottom) [(1::nat, Num 1), (2, Num 2)] [(1::nat, Num 1), (3, Num 2)] \<and>
   (\<forall>k. Value_equals (int_domain_Value Bottom)
      (at (int_domain_Value Bottom) [(1::nat, Num 1), (2, Num 2)] k)
      (at (int_domain_Value Bottom) [(1::nat, Num 1), (2, Num 2)] k)) \<and>
   \<not> (\<forall>k. Value_equals (int_domain_Value Bottom)
      (at (int_domain_Value Bottom) [(1::nat, Num 1), (2, Num 2)] k)
      (at (int_domain_Value Bottom) [(1::nat, Num 1), (3, Num 2)] k))"
proof -
  let ?V = "int_domain_Value Bottom"
  have h1: "I1 ?V [(1::nat, Num 1), (2, Num 2)]" by (simp add: I1_def)
  have h2: "I2 [(1::nat, Num 1), (2, Num 2)]" by (simp add: I2_def)
  have h3: "I1 ?V [(1::nat, Num 1), (3, Num 2)]" by (simp add: I1_def)
  have h4: "I2 [(1::nat, Num 1), (3, Num 2)]" by (simp add: I2_def)
  have h5: "is_default_value ?V (default_value ?V)" by simp
  have h6: "Value_equals ?V (default_value ?V) (default_value ?V)" by simp
  have h7: "\<forall>a b. Value_equals ?V a b \<longrightarrow> is_default_value ?V a = is_default_value ?V b"
    by simp
  have e1: "equals ?V [(1::nat, Num 1), (2, Num 2)] [(1::nat, Num 1), (2, Num 2)]"
    by (simp add: equals_def PairEqual_def)
  have e2: "\<not> equals ?V [(1::nat, Num 1), (2, Num 2)] [(1::nat, Num 1), (3, Num 2)]"
    by (simp add: equals_def PairEqual_def)
  have a1: "\<forall>k. Value_equals ?V (at ?V [(1::nat, Num 1), (2, Num 2)] k)
      (at ?V [(1::nat, Num 1), (2, Num 2)] k)"
    using e1 equals_iff [OF h1 h1 h2 h2 h5 h6 h7] by blast
  have a2: "\<not> (\<forall>k. Value_equals ?V (at ?V [(1::nat, Num 1), (2, Num 2)] k)
      (at ?V [(1::nat, Num 1), (3, Num 2)] k))"
    using e2 equals_iff [OF h1 h3 h2 h4 h5 h6 h7] by blast
  show ?thesis
    using h1 h2 h3 h4 h5 e1 e2 a1 a2 by (simp only: simp_thms)
qed

section \<open>The partial order\<close>

text \<open>Both loops decide whether every pair of one sequence has a partner with the same
  key in the other sequence, related by \<open>R\<close>: \<open>leq_when_default_is_top\<close> looks for the
  pairs of \<open>other\<close> in \<open>this\<close>, \<open>leq_when_default_is_bottom\<close> for the pairs of \<open>this\<close>
  in \<open>other\<close>.\<close>

lemma matched_length:
  assumes "I2 ys" "\<forall>q \<in> set ys. \<exists>p \<in> set xs. fst p = fst q \<and> R p q"
  shows "length ys \<le> length xs"
proof -
  have "fst ` set ys \<subseteq> fst ` set xs" using assms(2) by force
  then have "card (fst ` set ys) \<le> card (fst ` set xs)" by (simp add: card_mono)
  moreover have "card (fst ` set ys) = length ys"
    using I2_distinct [OF assms(1)] distinct_card [of "map fst ys"] by simp
  moreover have "card (fst ` set xs) \<le> length xs"
    using card_length [of "map fst xs"] by simp
  ultimately show ?thesis by simp
qed

lemma dropWhile_lower_keys:
  assumes "p \<in> set xs" "\<not> fst p < key"  "I2 xs"
  shows "p \<in> set (dropWhile (\<lambda>p. fst p < key) xs)"
proof -
  have "p \<in> set (takeWhile (\<lambda>p. fst p < key) xs) \<or> p \<in> set (dropWhile (\<lambda>p. fst p < key) xs)"
    using assms(1) by (metis Un_iff set_append takeWhile_dropWhile_id)
  then show ?thesis using assms(2) by (auto dest: set_takeWhileD)
qed

lemma matched_step:
  assumes "I2 xs" "I2 (q # ys)"
  shows "(\<forall>q' \<in> set (q # ys). \<exists>p \<in> set xs. fst p = fst q' \<and> R p q') \<longleftrightarrow>
    (case dropWhile (\<lambda>p. fst p < fst q) xs of
       [] \<Rightarrow> False
     | d # ds \<Rightarrow> fst d = fst q \<and> R d q \<and> (\<forall>q' \<in> set ys. \<exists>p \<in> set ds. fst p = fst q' \<and> R p q'))"
proof (cases "dropWhile (\<lambda>p. fst p < fst q) xs")
  case Nil
  then have "\<forall>p \<in> set xs. fst p < fst q" by (simp add: dropWhile_eq_Nil_conv)
  then have "\<not> (\<exists>p \<in> set xs. fst p = fst q \<and> R p q)" by auto
  then show ?thesis unfolding Nil by simp
next
  case (Cons d ds)
  have sub: "set (d # ds) \<subseteq> set xs" using Cons by (metis set_dropWhileD subsetI)
  have dds: "I2 (d # ds)" using assms(1) I2_drop Cons by (metis dropWhile_eq_drop)
  have dge: "\<not> fst d < fst q" using Cons by (metis hd_dropWhile list.sel(1) list.distinct(1))
  have above: "\<forall>p \<in> set ds. fst d < fst p" using dds by (simp add: I2_Cons)
  have ys: "\<forall>q' \<in> set ys. fst q < fst q'" using assms(2) by (simp add: I2_Cons)
  have in_d: "p \<in> set (d # ds)" if "p \<in> set xs" "\<not> fst p < fst q" for p
    using that assms(1) Cons dropWhile_lower_keys by metis
  show ?thesis
  proof
    assume L: "\<forall>q' \<in> set (q # ys). \<exists>p \<in> set xs. fst p = fst q' \<and> R p q'"
    then obtain p where p: "p \<in> set xs" "fst p = fst q" "R p q" by auto
    then have "p \<in> set (d # ds)" using in_d by simp
    then have pd: "p = d" using above dge p(2) by auto
    have "\<exists>p \<in> set ds. fst p = fst q' \<and> R p q'" if q': "q' \<in> set ys" for q'
    proof -
      obtain p' where p': "p' \<in> set xs" "fst p' = fst q'" "R p' q'" using L q' by auto
      have gt: "fst q < fst p'" using ys q' p'(2) by simp
      then have "p' \<in> set (d # ds)" using in_d p'(1) by auto
      moreover have "p' \<noteq> d" using gt pd p(2) by auto
      ultimately have "p' \<in> set ds" by simp
      then show ?thesis using p'(2,3) by auto
    qed
    then show "case dropWhile (\<lambda>p. fst p < fst q) xs of [] \<Rightarrow> False
      | d # ds \<Rightarrow> fst d = fst q \<and> R d q \<and> (\<forall>q' \<in> set ys. \<exists>p \<in> set ds. fst p = fst q' \<and> R p q')"
      unfolding Cons using pd p by simp
  next
    assume "case dropWhile (\<lambda>p. fst p < fst q) xs of [] \<Rightarrow> False
      | d # ds \<Rightarrow> fst d = fst q \<and> R d q \<and> (\<forall>q' \<in> set ys. \<exists>p \<in> set ds. fst p = fst q' \<and> R p q')"
    then have R: "fst d = fst q" "R d q" "\<forall>q' \<in> set ys. \<exists>p \<in> set ds. fst p = fst q' \<and> R p q'"
      unfolding Cons by simp_all
    show "\<forall>q' \<in> set (q # ys). \<exists>p \<in> set xs. fst p = fst q' \<and> R p q'"
      using R sub by auto
  qed
qed


lemma lower_bound_end:
  assumes "it \<le> length c" "lower_bound c it (length c) key = length c"
  shows "dropWhile (\<lambda>p. fst p < key) (drop it c) = []"
  using drop_lower_bound [of c it key] assms(2) by simp

lemma lower_bound_inside:
  assumes "it \<le> length c" "lower_bound c it (length c) key \<noteq> length c"
  shows "lower_bound c it (length c) key < length c"
    and "dropWhile (\<lambda>p. fst p < key) (drop it c)
      = c ! lower_bound c it (length c) key # drop (Suc (lower_bound c it (length c) key)) c"
proof -
  show lt: "lower_bound c it (length c) key < length c"
    using lower_bound_le [OF assms(1), of key] assms(2) by simp
  show "dropWhile (\<lambda>p. fst p < key) (drop it c)
      = c ! lower_bound c it (length c) key # drop (Suc (lower_bound c it (length c) key)) c"
    using drop_lower_bound [of c it key] Cons_nth_drop_Suc [OF lt] by simp
qed

lemma leq_top_loop_iff:
  assumes "I2 m" "I2 other" "it \<le> length m"
  shows "leq_top_loop V m it other other_it \<longleftrightarrow>
    (\<forall>q \<in> set (drop other_it other). \<exists>p \<in> set (drop it m).
        fst p = fst q \<and> Value_leq V (snd p) (snd q))"
  using assms
proof (induction V m it other other_it rule: leq_top_loop.induct)
  case (1 V m it other other_it)
  let ?R = "\<lambda>p q. Value_leq V (snd p) (snd q)"
  let ?matched = "\<lambda>xs ys. \<forall>q \<in> set ys. \<exists>p \<in> set xs. fst p = fst q \<and> ?R p q"
  let ?q = "other ! other_it"
  let ?x = "lower_bound m it (length m) (fst ?q)"
  show ?case
  proof (cases "other_it < length other")
    case False
    then show ?thesis by (subst leq_top_loop.simps) simp
  next
    case True
    have dq: "drop other_it other = ?q # drop (Suc other_it) other"
      using True by (simp add: Cons_nth_drop_Suc)
    have xs: "I2 (drop it m)" using "1.prems"(1) by (rule I2_drop)
    have ys: "I2 (?q # drop (Suc other_it) other)"
      using "1.prems"(2) I2_drop [of other other_it] dq by simp
    have step: "?matched (drop it m) (drop other_it other) \<longleftrightarrow>
      (case dropWhile (\<lambda>p. fst p < fst ?q) (drop it m) of
         [] \<Rightarrow> False
       | d # ds \<Rightarrow> fst d = fst ?q \<and> ?R d ?q \<and> ?matched ds (drop (Suc other_it) other))"
      unfolding dq by (rule matched_step [OF xs ys, where R = ?R])
    show ?thesis
    proof (cases "length m - it < length other - other_it")
      case short: True
      have "\<not> ?matched (drop it m) (drop other_it other)"
      proof
        assume "?matched (drop it m) (drop other_it other)"
        then have "length (drop other_it other) \<le> length (drop it m)"
          by (rule matched_length [OF I2_drop [OF "1.prems"(2)], where R = ?R])
        then show False using short by simp
      qed
      then show ?thesis using True short by (subst leq_top_loop.simps) simp
    next
      case long: False
      show ?thesis
      proof (cases "?x = length m")
        case at_end: True
        have dnil: "dropWhile (\<lambda>p. fst p < fst ?q) (drop it m) = []"
          using "1.prems"(3) at_end by (rule lower_bound_end)
        have "\<not> ?matched (drop it m) (drop other_it other)"
          using step unfolding dnil by simp
        then show ?thesis using True long at_end
          by (subst leq_top_loop.simps) (simp add: Let_def)
      next
        case inside: False
        have x: "?x < length m"
          and d: "dropWhile (\<lambda>p. fst p < fst ?q) (drop it m) = m ! ?x # drop (Suc ?x) m"
          using lower_bound_inside [OF "1.prems"(3) inside] by simp_all
        have step': "?matched (drop it m) (drop other_it other) \<longleftrightarrow>
          fst (m ! ?x) = fst ?q \<and> ?R (m ! ?x) ?q \<and>
          ?matched (drop (Suc ?x) m) (drop (Suc other_it) other)"
          using step unfolding d by simp
        show ?thesis
        proof (cases "fst (m ! ?x) = fst ?q \<and> ?R (m ! ?x) ?q")
          case False
          then have "\<not> ?matched (drop it m) (drop other_it other)"
            using step' by blast
          then show ?thesis using True long inside False
            by (subst leq_top_loop.simps) (auto simp: Let_def)
        next
          case ok: True
          have "leq_top_loop V m (Suc ?x) other (Suc other_it) \<longleftrightarrow>
            ?matched (drop (Suc ?x) m) (drop (Suc other_it) other)"
            using True long inside ok x "1.prems"(1,2)
            by (intro "1.IH" [of ?x]) simp_all
          then have "leq_top_loop V m (Suc ?x) other (Suc other_it) \<longleftrightarrow>
            ?matched (drop it m) (drop other_it other)"
            using step' ok by blast
          then show ?thesis using True long inside ok
            by (subst leq_top_loop.simps) (simp add: Let_def)
        qed
      qed
    qed
  qed
qed


lemma leq_bottom_loop_iff:
  assumes "I2 m" "I2 other" "other_it \<le> length other"
  shows "leq_bottom_loop V m it other other_it \<longleftrightarrow>
    (\<forall>p \<in> set (drop it m). \<exists>q \<in> set (drop other_it other).
        fst q = fst p \<and> Value_leq V (snd p) (snd q))"
  using assms
proof (induction V m it other other_it rule: leq_bottom_loop.induct)
  case (1 V m it other other_it)
  let ?R = "\<lambda>q p. Value_leq V (snd p) (snd q)"
  let ?matched = "\<lambda>xs ys. \<forall>p \<in> set ys. \<exists>q \<in> set xs. fst q = fst p \<and> ?R q p"
  let ?p = "m ! it"
  let ?x = "lower_bound other other_it (length other) (fst ?p)"
  show ?case
  proof (cases "it < length m")
    case False
    then show ?thesis by (subst leq_bottom_loop.simps) simp
  next
    case True
    have dp: "drop it m = ?p # drop (Suc it) m"
      using True by (simp add: Cons_nth_drop_Suc)
    have xs: "I2 (drop other_it other)" using "1.prems"(2) by (rule I2_drop)
    have ys: "I2 (?p # drop (Suc it) m)"
      using "1.prems"(1) I2_drop [of m it] dp by simp
    have step: "?matched (drop other_it other) (drop it m) \<longleftrightarrow>
      (case dropWhile (\<lambda>q. fst q < fst ?p) (drop other_it other) of
         [] \<Rightarrow> False
       | d # ds \<Rightarrow> fst d = fst ?p \<and> ?R d ?p \<and> ?matched ds (drop (Suc it) m))"
      unfolding dp by (rule matched_step [OF xs ys, where R = ?R])
    show ?thesis
    proof (cases "length m - it > length other - other_it")
      case short: True
      have "\<not> ?matched (drop other_it other) (drop it m)"
      proof
        assume "?matched (drop other_it other) (drop it m)"
        then have "length (drop it m) \<le> length (drop other_it other)"
          by (rule matched_length [OF I2_drop [OF "1.prems"(1)], where R = ?R])
        then show False using short by simp
      qed
      then show ?thesis using True short by (subst leq_bottom_loop.simps) simp
    next
      case long: False
      show ?thesis
      proof (cases "?x = length other")
        case at_end: True
        have dnil: "dropWhile (\<lambda>q. fst q < fst ?p) (drop other_it other) = []"
          using "1.prems"(3) at_end by (rule lower_bound_end)
        have "\<not> ?matched (drop other_it other) (drop it m)"
          using step unfolding dnil by simp
        then show ?thesis using True long at_end
          by (subst leq_bottom_loop.simps) (simp add: Let_def)
      next
        case inside: False
        have x: "?x < length other"
          and d: "dropWhile (\<lambda>q. fst q < fst ?p) (drop other_it other)
            = other ! ?x # drop (Suc ?x) other"
          using lower_bound_inside [OF "1.prems"(3) inside] by simp_all
        have step': "?matched (drop other_it other) (drop it m) \<longleftrightarrow>
          fst (other ! ?x) = fst ?p \<and> ?R (other ! ?x) ?p \<and>
          ?matched (drop (Suc ?x) other) (drop (Suc it) m)"
          using step unfolding d by simp
        show ?thesis
        proof (cases "fst ?p = fst (other ! ?x) \<and> ?R (other ! ?x) ?p")
          case False
          then have "\<not> (fst (other ! ?x) = fst ?p \<and> ?R (other ! ?x) ?p)"
            by (simp add: eq_commute)
          then have "\<not> ?matched (drop other_it other) (drop it m)"
            unfolding step' by blast
          then show ?thesis using True long inside False
            by (subst leq_bottom_loop.simps) (auto simp: Let_def)
        next
          case ok: True
          have "leq_bottom_loop V m (Suc it) other (Suc ?x) \<longleftrightarrow>
            ?matched (drop (Suc ?x) other) (drop (Suc it) m)"
            using True long inside ok x "1.prems"(1,2)
            by (intro "1.IH" [of ?x]) simp_all
          moreover have "fst (other ! ?x) = fst ?p \<and> ?R (other ! ?x) ?p"
            using ok by (simp add: eq_commute)
          ultimately have "leq_bottom_loop V m (Suc it) other (Suc ?x) \<longleftrightarrow>
            ?matched (drop other_it other) (drop it m)"
            unfolding step' by blast
          then show ?thesis using True long inside ok
            by (subst leq_bottom_loop.simps) (simp add: Let_def)
        qed
      qed
    qed
  qed
qed

lemma leq_when_default_is_top_iff:
  assumes "I2 m" "I2 other"
  shows "leq_when_default_is_top V m other \<longleftrightarrow>
    (\<forall>q \<in> set other. \<exists>p \<in> set m. fst p = fst q \<and> Value_leq V (snd p) (snd q))"
proof (cases "length m < length other")
  case True
  have "\<not> (\<forall>q \<in> set other. \<exists>p \<in> set m. fst p = fst q \<and> Value_leq V (snd p) (snd q))"
  proof
    assume "\<forall>q \<in> set other. \<exists>p \<in> set m. fst p = fst q \<and> Value_leq V (snd p) (snd q)"
    then have "length other \<le> length m"
      by (rule matched_length [OF assms(2), where R = "\<lambda>p q. Value_leq V (snd p) (snd q)"])
    then show False using True by simp
  qed
  then show ?thesis using True by (simp add: leq_when_default_is_top_def)
next
  case False
  then show ?thesis
    using leq_top_loop_iff [OF assms, of 0 V 0] by (simp add: leq_when_default_is_top_def)
qed

lemma leq_when_default_is_bottom_iff:
  assumes "I2 m" "I2 other"
  shows "leq_when_default_is_bottom V m other \<longleftrightarrow>
    (\<forall>p \<in> set m. \<exists>q \<in> set other. fst q = fst p \<and> Value_leq V (snd p) (snd q))"
proof (cases "length m > length other")
  case True
  have "\<not> (\<forall>p \<in> set m. \<exists>q \<in> set other. fst q = fst p \<and> Value_leq V (snd p) (snd q))"
  proof
    assume "\<forall>p \<in> set m. \<exists>q \<in> set other. fst q = fst p \<and> Value_leq V (snd p) (snd q)"
    then have "length m \<le> length other"
      by (rule matched_length [OF assms(1), where R = "\<lambda>q p. Value_leq V (snd p) (snd q)"])
    then show False using True by simp
  qed
  then show ?thesis using True by (simp add: leq_when_default_is_bottom_def)
next
  case False
  then show ?thesis
    using leq_bottom_loop_iff [OF assms, of 0 V 0] by (simp add: leq_when_default_is_bottom_def)
qed


lemma at_stored_pair: "I2 m \<Longrightarrow> p \<in> set m \<Longrightarrow> at V m (fst p) = snd p"
  by (rule at_stored) simp_all

lemma top_pointwise:
  assumes "I2 m" "I2 other" "I1 V other"
    "\<forall>v. Value_leq V v (default_value V)"
    "\<forall>v. Value_leq V (default_value V) v \<longrightarrow> is_default_value V v"
  shows "(\<forall>q \<in> set other. \<exists>p \<in> set m. fst p = fst q \<and> Value_leq V (snd p) (snd q)) \<longleftrightarrow>
         (\<forall>k. Value_leq V (at V m k) (at V other k))"
proof
  assume L: "\<forall>q \<in> set other. \<exists>p \<in> set m. fst p = fst q \<and> Value_leq V (snd p) (snd q)"
  show "\<forall>k. Value_leq V (at V m k) (at V other k)"
  proof
    fix k
    show "Value_leq V (at V m k) (at V other k)"
    proof (cases rule: stored_key_cases [of k other])
      case (stored v)
      then obtain p where p: "p \<in> set m" "fst p = k" "Value_leq V (snd p) v"
        using L by force
      have "at V m k = snd p" using at_stored_pair [OF assms(1) p(1)] p(2) by simp
      moreover have "at V other k = v" using assms(2) stored by (rule at_stored)
      ultimately show ?thesis using p(3) by simp
    next
      case absent
      then have "at V other k = default_value V" by (rule at_absent)
      then show ?thesis using assms(4) by simp
    qed
  qed
next
  assume R: "\<forall>k. Value_leq V (at V m k) (at V other k)"
  show "\<forall>q \<in> set other. \<exists>p \<in> set m. fst p = fst q \<and> Value_leq V (snd p) (snd q)"
  proof
    fix q assume q: "q \<in> set other"
    have nd: "\<not> is_default_value V (snd q)" using assms(3) q by (simp add: I1_iff)
    have le: "Value_leq V (at V m (fst q)) (snd q)"
      using R at_stored_pair [OF assms(2) q, of V] by metis
    show "\<exists>p \<in> set m. fst p = fst q \<and> Value_leq V (snd p) (snd q)"
    proof (cases rule: stored_key_cases [of "fst q" m])
      case (stored v)
      then have "at V m (fst q) = v" using assms(1) by (simp add: at_stored)
      then have "fst (fst q, v) = fst q \<and> Value_leq V (snd (fst q, v)) (snd q)"
        using le by simp
      then show ?thesis using stored by (rule_tac bexI)
    next
      case absent
      then have "at V m (fst q) = default_value V" by (rule at_absent)
      then show ?thesis using le nd assms(5) by simp
    qed
  qed
qed

lemma bottom_pointwise:
  assumes "I2 m" "I2 other" "I1 V m"
    "\<forall>v. Value_leq V (default_value V) v"
    "\<forall>v. Value_leq V v (default_value V) \<longrightarrow> is_default_value V v"
  shows "(\<forall>p \<in> set m. \<exists>q \<in> set other. fst q = fst p \<and> Value_leq V (snd p) (snd q)) \<longleftrightarrow>
         (\<forall>k. Value_leq V (at V m k) (at V other k))"
proof
  assume L: "\<forall>p \<in> set m. \<exists>q \<in> set other. fst q = fst p \<and> Value_leq V (snd p) (snd q)"
  show "\<forall>k. Value_leq V (at V m k) (at V other k)"
  proof
    fix k
    show "Value_leq V (at V m k) (at V other k)"
    proof (cases rule: stored_key_cases [of k m])
      case (stored v)
      then obtain q where q: "q \<in> set other" "fst q = k" "Value_leq V v (snd q)"
        using L by force
      have "at V other k = snd q" using at_stored_pair [OF assms(2) q(1)] q(2) by simp
      moreover have "at V m k = v" using assms(1) stored by (rule at_stored)
      ultimately show ?thesis using q(3) by simp
    next
      case absent
      then have "at V m k = default_value V" by (rule at_absent)
      then show ?thesis using assms(4) by simp
    qed
  qed
next
  assume R: "\<forall>k. Value_leq V (at V m k) (at V other k)"
  show "\<forall>p \<in> set m. \<exists>q \<in> set other. fst q = fst p \<and> Value_leq V (snd p) (snd q)"
  proof
    fix p assume p: "p \<in> set m"
    have nd: "\<not> is_default_value V (snd p)" using assms(3) p by (simp add: I1_iff)
    have le: "Value_leq V (snd p) (at V other (fst p))"
      using R at_stored_pair [OF assms(1) p, of V] by metis
    show "\<exists>q \<in> set other. fst q = fst p \<and> Value_leq V (snd p) (snd q)"
    proof (cases rule: stored_key_cases [of "fst p" other])
      case (stored v)
      then have "at V other (fst p) = v" using assms(2) by (simp add: at_stored)
      then have "fst (fst p, v) = fst p \<and> Value_leq V (snd p) (snd (fst p, v))"
        using le by simp
      then show ?thesis using stored by (rule_tac bexI)
    next
      case absent
      then have "at V other (fst p) = default_value V" by (rule at_absent)
      then show ?thesis using le nd assms(5) by simp
    qed
  qed
qed

text \<open>C1: for two maps that satisfy the invariants, under a value interface whose default
  value is Top or Bottom (\<open>is_top\<close> holds of it and it is the greatest value of
  \<open>Value::leq\<close>, only default values above it; or \<open>is_bottom\<close> holds of it and it is the
  least value, only default values below it), \<open>leq\<close> returns true if and only if, at
  every key of the key domain, the value \<open>at\<close> returns for this map is below the value
  \<open>at\<close> returns for the other map.\<close>

theorem leq_pointwise:
  assumes "I1 V m" "I2 m" "I1 V other" "I2 other"
    "is_top V (default_value V) \<or> is_bottom V (default_value V)"
    "is_top V (default_value V) \<longrightarrow>
       (\<forall>v. Value_leq V v (default_value V)) \<and>
       (\<forall>v. Value_leq V (default_value V) v \<longrightarrow> is_default_value V v)"
    "is_bottom V (default_value V) \<longrightarrow>
       (\<forall>v. Value_leq V (default_value V) v) \<and>
       (\<forall>v. Value_leq V v (default_value V) \<longrightarrow> is_default_value V v)"
  shows "leq V m other = Inr (\<forall>k. Value_leq V (at V m k) (at V other k))"
proof (cases "is_top V (default_value V)")
  case True
  then have top: "\<forall>v. Value_leq V v (default_value V)"
    "\<forall>v. Value_leq V (default_value V) v \<longrightarrow> is_default_value V v"
    using assms(6) by simp_all
  have "leq_when_default_is_top V m other \<longleftrightarrow> (\<forall>k. Value_leq V (at V m k) (at V other k))"
    unfolding leq_when_default_is_top_iff [OF assms(2,4)]
    using assms(2,4,3) top by (rule top_pointwise)
  then show ?thesis using True by (simp add: leq_def)
next
  case False
  then have b: "is_bottom V (default_value V)" using assms(5) by simp
  then have bot: "\<forall>v. Value_leq V (default_value V) v"
    "\<forall>v. Value_leq V v (default_value V) \<longrightarrow> is_default_value V v"
    using assms(7) by simp_all
  have "leq_when_default_is_bottom V m other \<longleftrightarrow>
      (\<forall>k. Value_leq V (at V m k) (at V other k))"
    unfolding leq_when_default_is_bottom_iff [OF assms(2,4)]
    using assms(2,4,1) bot by (rule bottom_pointwise)
  then show ?thesis using False b by (simp add: leq_def)
qed


lemma int_domain_leq_extremes:
  "int_domain_leq v Top" "int_domain_leq Top v \<longleftrightarrow> v = Top"
  "int_domain_leq Bottom v" "int_domain_leq v Bottom \<longleftrightarrow> v = Bottom"
  by (cases v; simp)+

theorem leq_pointwise_witness:
  "I1 (int_domain_Value Top) [(1::nat, Num 5), (2, Num 7)] \<and> I2 [(1::nat, Num 5), (2, Num 7)] \<and>
   I1 (int_domain_Value Top) [(1::nat, Num 5)] \<and> I2 [(1::nat, Num 5)] \<and>
   is_top (int_domain_Value Top) (default_value (int_domain_Value Top)) \<and>
   leq (int_domain_Value Top) [(1::nat, Num 5), (2, Num 7)] [(1::nat, Num 5)] = Inr True \<and>
   (\<forall>k. Value_leq (int_domain_Value Top)
      (at (int_domain_Value Top) [(1::nat, Num 5), (2, Num 7)] k)
      (at (int_domain_Value Top) [(1::nat, Num 5)] k)) \<and>
   is_bottom (int_domain_Value Bottom) (default_value (int_domain_Value Bottom)) \<and>
   leq (int_domain_Value Bottom) [(1::nat, Num 5), (2, Num 7)] [(1::nat, Num 5)] = Inr False \<and>
   \<not> (\<forall>k. Value_leq (int_domain_Value Bottom)
      (at (int_domain_Value Bottom) [(1::nat, Num 5), (2, Num 7)] k)
      (at (int_domain_Value Bottom) [(1::nat, Num 5)] k))"
proof -
  let ?T = "int_domain_Value Top" and ?B = "int_domain_Value Bottom"
  let ?m = "[(1::nat, Num 5), (2, Num 7)]" and ?other = "[(1::nat, Num 5)]"
  have i1: "I1 ?T ?m" "I1 ?T ?other" "I1 ?B ?m" "I1 ?B ?other" by (simp_all add: I1_def)
  have i2: "I2 ?m" "I2 ?other" by (simp_all add: I2_def)
  have t: "is_top ?T (default_value ?T)" by simp
  have b: "is_bottom ?B (default_value ?B)" by simp
  have t1: "is_top ?T (default_value ?T) \<or> is_bottom ?T (default_value ?T)" by simp
  have t2: "is_top ?T (default_value ?T) \<longrightarrow>
       (\<forall>v. Value_leq ?T v (default_value ?T)) \<and>
       (\<forall>v. Value_leq ?T (default_value ?T) v \<longrightarrow> is_default_value ?T v)"
    by (simp add: int_domain_leq_extremes)
  have t3: "is_bottom ?T (default_value ?T) \<longrightarrow>
       (\<forall>v. Value_leq ?T (default_value ?T) v) \<and>
       (\<forall>v. Value_leq ?T v (default_value ?T) \<longrightarrow> is_default_value ?T v)"
    by simp
  have b1: "is_top ?B (default_value ?B) \<or> is_bottom ?B (default_value ?B)" by simp
  have b2: "is_top ?B (default_value ?B) \<longrightarrow>
       (\<forall>v. Value_leq ?B v (default_value ?B)) \<and>
       (\<forall>v. Value_leq ?B (default_value ?B) v \<longrightarrow> is_default_value ?B v)"
    by simp
  have b3: "is_bottom ?B (default_value ?B) \<longrightarrow>
       (\<forall>v. Value_leq ?B (default_value ?B) v) \<and>
       (\<forall>v. Value_leq ?B v (default_value ?B) \<longrightarrow> is_default_value ?B v)"
    by (simp add: int_domain_leq_extremes)
  have lt: "leq ?T ?m ?other = Inr True"
    by (simp add: leq_def leq_when_default_is_top_def leq_top_loop.simps lower_bound_def
        ComparePairWithKey_def)
  have lb: "leq ?B ?m ?other = Inr False"
    by (simp add: leq_def leq_when_default_is_bottom_def)
  have pt: "\<forall>k. Value_leq ?T (at ?T ?m k) (at ?T ?other k)"
    using lt leq_pointwise [OF i1(1) i2(1) i1(2) i2(2) t1 t2 t3] by simp
  have pb: "\<not> (\<forall>k. Value_leq ?B (at ?B ?m k) (at ?B ?other k))"
    using lb leq_pointwise [OF i1(3) i2(1) i1(4) i2(2) b1 b2 b3] by simp
  show ?thesis
    using i1(1,2) i2 t b lt lb pt pb by (simp only: simp_thms)
qed

end
